theory Spec2Isabelle
  imports Complex_Main "HOL-Library.Word"
begin

section \<open>JavaScript values\<close>

text \<open>
  The sources are browser JavaScript. A JavaScript number is a \<^typ>\<open>real\<close>; the values
  \<open>NaN\<close> and \<open>Infinity\<close> (a division by zero) do not exist in the model. Except in
  the fit of the logo (see \<open>fl\<close> below), the arithmetic of the modelled functions is
  read as exact arithmetic. The bytes of a \<open>Uint8ClampedArray\<close> are \<^typ>\<open>8 word\<close>.
  \<open>undefined\<close> is \<^const>\<open>None\<close>.
\<close>

type_synonym byte = "8 word"

text \<open>\<open>Math.round\<close>: the nearest integer, a tie going up.\<close>

definition Math_round :: "real \<Rightarrow> int" where
  "Math_round v = \<lfloor>v + 1 / 2\<rfloor>"

text \<open>
  Where a claim depends on how double arithmetic rounds (the fit of the logo in
  \<open>calculateLogoPosition\<close>), the rounding is written out: a finite double is the real
  number it holds, and each operation of the source is the exact operation followed by
  \<open>fl\<close>, the rounding to the nearest double, a tie going to the even significand
  (IEEE 754 binary64, the arithmetic of every JavaScript number).

  \<open>ulp v\<close> is the spacing of the doubles around \<open>v\<close>: the power of two \<open>u\<close> with
  \<open>2 ^ 52 * u \<le> \<bar>v\<bar> < 2 ^ 53 * u\<close>, but no less than \<open>2 ^ -1074\<close> (the subnormal
  numbers) and no more than \<open>2 ^ 971\<close> (the largest binade). It is searched from \<open>1\<close>,
  upwards by at most 971 doublings or downwards by at most 1074 halvings. A result of
  \<open>2 ^ 1024\<close> or more stands for \<open>Infinity\<close>.
\<close>

definition roundEven :: "real \<Rightarrow> int" where
  "roundEven v =
     (let n = \<lfloor>v\<rfloor>; d = v - real_of_int n
      in if d < 1 / 2 then n else if 1 / 2 < d then n + 1 else if even n then n else n + 1)"

primrec ulpUp :: "nat \<Rightarrow> real \<Rightarrow> real \<Rightarrow> real" where
  "ulpUp 0 g v = g"
| "ulpUp (Suc k) g v = (if 2 ^ 53 * g \<le> v then ulpUp k (2 * g) v else g)"

primrec ulpDown :: "nat \<Rightarrow> real \<Rightarrow> real \<Rightarrow> real" where
  "ulpDown 0 g v = g"
| "ulpDown (Suc k) g v = (if v < 2 ^ 52 * g then ulpDown k (g / 2) v else g)"

definition ulp :: "real \<Rightarrow> real" where
  "ulp v = (if 2 ^ 53 \<le> \<bar>v\<bar> then ulpUp 971 1 \<bar>v\<bar> else ulpDown 1074 1 \<bar>v\<bar>)"

definition fl :: "real \<Rightarrow> real" where
  "fl v = (let u = ulp v in u * real_of_int (roundEven (v / u)))"

text \<open>
  A decoded raster: an \<open>HTMLImageElement\<close> that has loaded, the \<open>ImageData\<close> read back
  from a canvas it was drawn on at its natural size, or the PNG data URL of such a
  canvas. \<open>img_data\<close> is the RGBA byte array, four bytes a pixel, row by row.
\<close>

record img =
  img_width :: nat
  img_height :: nat
  img_data :: "byte list"

section \<open>utils.js\<close>

text \<open>
  \<open>clampImageToMax(img, maxSide)\<close>: the size of the canvas the image is drawn on. The
  pixels are the browser's resampling of the image to that size (\<open>resample\<close>, a
  parameter).
\<close>

definition clampImageToMax :: "(img \<Rightarrow> nat \<Rightarrow> nat \<Rightarrow> byte list) \<Rightarrow> img \<Rightarrow> real \<Rightarrow> img" where
  "clampImageToMax resample im maxSide =
     (let w = img_width im; h = img_height im;
          m = max w h;
          (w', h') =
            (if real m > maxSide
             then (let s = maxSide / real m
                   in (nat (Math_round (real w * s)), nat (Math_round (real h * s))))
             else (w, h))
      in \<lparr>img_width = w', img_height = h', img_data = resample im w' h'\<rparr>)"

section \<open>bannerGenerator.js: the placement of the logo\<close>

record config =
  cfg_template :: string
  cfg_w :: real
  cfg_h :: real
  cfg_bg :: string
  cfg_grad :: string
  cfg_text :: string
  cfg_tpos :: string
  cfg_tcol :: string
  cfg_fs :: real
  cfg_logoPos :: string
  cfg_logoSizePct :: real
  cfg_mode :: string

text \<open>The object \<open>{ x, y, width, height }\<close> that \<open>calculateLogoPosition\<close> returns.\<close>

record placement =
  logo_x :: "real option"
  logo_y :: "real option"
  logo_width :: real
  logo_height :: real

definition pad :: real where
  "pad = 20"

text \<open>
  The \<open>switch\<close> on \<open>config.logoPos\<close>: nine cases and no default, so any other value
  leaves \<open>x\<close> and \<open>y\<close> as declared, \<open>undefined\<close>.
\<close>

definition logoXY :: "config \<Rightarrow> real \<Rightarrow> real \<Rightarrow> real option \<times> real option" where
  "logoXY c logoWidth logoHeight =
     (let p = cfg_logoPos c in
      if p = ''left-top'' then (Some pad, Some pad)
      else if p = ''top-middle'' then (Some ((cfg_w c - logoWidth) / 2), Some pad)
      else if p = ''right-top'' then (Some (cfg_w c - logoWidth - pad), Some pad)
      else if p = ''left-middle'' then (Some pad, Some ((cfg_h c - logoHeight) / 2))
      else if p = ''center'' then
        (Some ((cfg_w c - logoWidth) / 2), Some ((cfg_h c - logoHeight) / 2))
      else if p = ''right-middle'' then
        (Some (cfg_w c - logoWidth - pad), Some ((cfg_h c - logoHeight) / 2))
      else if p = ''left-bottom'' then (Some pad, Some (cfg_h c - logoHeight - pad))
      else if p = ''bottom-middle'' then
        (Some ((cfg_w c - logoWidth) / 2), Some (cfg_h c - logoHeight - pad))
      else if p = ''right-bottom'' then
        (Some (cfg_w c - logoWidth - pad), Some (cfg_h c - logoHeight - pad))
      else (None, None))"

text \<open>
  The fit of the logo inside \<open>maxW\<close> by \<open>maxH\<close>: \<open>(logoWidth, logoHeight)\<close>, in double
  arithmetic. \<open>img.width\<close> and \<open>img.height\<close> are integers below \<open>2 ^ 32\<close> and are doubles
  as they are. For an image of width or height 0 the source divides by zero and works
  with \<open>Infinity\<close> or \<open>NaN\<close>; the model has no such values, and what is proved of the
  bounds is proved for images of positive width and height.
\<close>

definition logoSize :: "config \<Rightarrow> img \<Rightarrow> real \<times> real" where
  "logoSize c im =
     (let scale = fl (cfg_logoSizePct c / 100);
          maxW = fl (cfg_w c * scale);
          maxH = fl (cfg_h c * scale);
          aspectRatio = fl (real (img_width im) / real (img_height im))
      in if fl (maxW / aspectRatio) \<le> maxH
         then (maxW, fl (maxW / aspectRatio))
         else (fl (maxH * aspectRatio), maxH))"

definition calculateLogoPosition :: "config \<Rightarrow> img \<Rightarrow> placement" where
  "calculateLogoPosition c im =
     (let (logoWidth, logoHeight) = logoSize c im;
          (x, y) = logoXY c logoWidth logoHeight
      in \<lparr>logo_x = x, logo_y = y, logo_width = logoWidth, logo_height = logoHeight\<rparr>)"

text \<open>
  The nine values of \<open>config.logoPos\<close> that the position grid of the user interface
  offers (\<open>initializePositionGrid\<close>).
\<close>

definition posNames :: "string list" where
  "posNames =
     [''left-top'', ''top-middle'', ''right-top'',
      ''left-middle'', ''center'', ''right-middle'',
      ''left-bottom'', ''bottom-middle'', ''right-bottom'']"

section \<open>bannerGenerator.js: drawing\<close>

text \<open>
  A 2D canvas is its drawing state and the list of the drawing calls made on it, the
  oldest first: a later call paints over an earlier one. Each call records the state it
  was made in.
\<close>

datatype fillStyle =
    Color string
  | LinearGradient real real real real "(real \<times> string) list"

datatype font = DefaultFont | BoldArial real

datatype drawOp =
    FillRect fillStyle real real real real real
  | FillText string fillStyle font string string real real
  | DrawImage img "real option" "real option" real real

record canvas =
  canvas_width :: nat
  canvas_height :: nat
  ctx_imageSmoothingEnabled :: bool
  ctx_imageSmoothingQuality :: string
  ctx_fillStyle :: fillStyle
  ctx_globalAlpha :: real
  ctx_font :: font
  ctx_textAlign :: string
  ctx_textBaseline :: string
  ctx_saved :: "(fillStyle \<times> real \<times> font \<times> string \<times> string) list"
  ctx_ops :: "drawOp list"

text \<open>
  \<open>DrawImage im x y w h\<close> is \<open>ctx.drawImage(im, x, y, w, h)\<close>; \<open>x\<close> and \<open>y\<close> are
  \<^const>\<open>None\<close> where the call is given \<open>undefined\<close>.

  An image source is a data URL, or the object URL of a blob of SVG text.
\<close>

datatype src = DataURL string | SvgBlobURL string

text \<open>
  The failures of the modelled functions, under the names of the specification:
  \<open>UnsupportedFormat\<close> is the error \<open>Please upload PNG/JPG format only\<close> that
  \<open>loadLogo\<close> throws, \<open>NoSourceImage\<close> the error \<open>No processed logo available\<close> of
  \<open>convertToBitmap\<close>; \<open>ReadFailure\<close> and \<open>DecodeFailure\<close> are the rejections of a promise
  by the \<open>onerror\<close> of a \<open>FileReader\<close> and of an \<open>Image\<close>.
\<close>

datatype error =
    UnsupportedFormat
  | ReadFailure
  | DecodeFailure
  | NoSourceImage

text \<open>The conversion of a number to the \<open>unsigned long\<close> of \<open>canvas.width\<close>.\<close>

definition toUint32 :: "real \<Rightarrow> nat" where
  "toUint32 v = nat ((if v < 0 then \<lceil>v\<rceil> else \<lfloor>v\<rfloor>) mod 2 ^ 32)"

definition createCanvas :: "real \<Rightarrow> real \<Rightarrow> canvas" where
  "createCanvas w h =
     \<lparr>canvas_width = toUint32 w, canvas_height = toUint32 h,
      ctx_imageSmoothingEnabled = True, ctx_imageSmoothingQuality = ''low'',
      ctx_fillStyle = Color ''#000000'', ctx_globalAlpha = 1,
      ctx_font = DefaultFont, ctx_textAlign = ''start'', ctx_textBaseline = ''alphabetic'',
      ctx_saved = [], ctx_ops = []\<rparr>"

definition fillRect :: "canvas \<Rightarrow> real \<Rightarrow> real \<Rightarrow> real \<Rightarrow> real \<Rightarrow> canvas" where
  "fillRect cv x y w h =
     cv\<lparr>ctx_ops := ctx_ops cv @ [FillRect (ctx_fillStyle cv) (ctx_globalAlpha cv) x y w h]\<rparr>"

definition fillText :: "canvas \<Rightarrow> string \<Rightarrow> real \<Rightarrow> real \<Rightarrow> canvas" where
  "fillText cv s x y =
     cv\<lparr>ctx_ops := ctx_ops cv @
        [FillText s (ctx_fillStyle cv) (ctx_font cv) (ctx_textAlign cv) (ctx_textBaseline cv) x y]\<rparr>"

definition drawImage ::
  "canvas \<Rightarrow> img \<Rightarrow> real option \<Rightarrow> real option \<Rightarrow> real \<Rightarrow> real \<Rightarrow> canvas" where
  "drawImage cv im x y w h = cv\<lparr>ctx_ops := ctx_ops cv @ [DrawImage im x y w h]\<rparr>"

definition save :: "canvas \<Rightarrow> canvas" where
  "save cv =
     cv\<lparr>ctx_saved :=
          (ctx_fillStyle cv, ctx_globalAlpha cv, ctx_font cv, ctx_textAlign cv, ctx_textBaseline cv)
          # ctx_saved cv\<rparr>"

definition restore :: "canvas \<Rightarrow> canvas" where
  "restore cv =
     (case ctx_saved cv of
        [] \<Rightarrow> cv
      | (fs, ga, fo, ta, tb) # rest \<Rightarrow>
          cv\<lparr>ctx_fillStyle := fs, ctx_globalAlpha := ga, ctx_font := fo,
             ctx_textAlign := ta, ctx_textBaseline := tb, ctx_saved := rest\<rparr>)"

text \<open>
  The checkerboard: \<open>for (let y = 0; y < config.h; y += 40)\<close> inside
  \<open>for (let x = 0; x < config.w; x += 40)\<close>, a square drawn where
  \<open>((x + y) / 40) % 2 === 0\<close>.
\<close>

definition evenCell :: "nat \<Rightarrow> nat \<Rightarrow> bool" where
  "evenCell x y = (let q = real (x + y) / 40 in q - 2 * real_of_int \<lfloor>q / 2\<rfloor> = 0)"

function checkerColumn :: "config \<Rightarrow> nat \<Rightarrow> nat \<Rightarrow> canvas \<Rightarrow> canvas" where
  "checkerColumn c x y cv =
     (if real y < cfg_h c
      then checkerColumn c x (y + 40)
             (if evenCell x y then fillRect cv (real x) (real y) 20 20 else cv)
      else cv)"
  by pat_completeness auto
termination
  by (relation "measure (\<lambda>(c, x, y, cv). nat \<lceil>cfg_h c - real y\<rceil>)") (simp, simp, linarith)

declare checkerColumn.simps [simp del]

function checkerRows :: "config \<Rightarrow> nat \<Rightarrow> canvas \<Rightarrow> canvas" where
  "checkerRows c x cv =
     (if real x < cfg_w c
      then checkerRows c (x + 40) (checkerColumn c x 0 cv)
      else cv)"
  by pat_completeness auto
termination
  by (relation "measure (\<lambda>(c, x, cv). nat \<lceil>cfg_w c - real x\<rceil>)") (simp, simp, linarith)

declare checkerRows.simps [simp del]

definition drawTemplateBackground :: "canvas \<Rightarrow> config \<Rightarrow> canvas" where
  "drawTemplateBackground cv c =
     (if cfg_template c = ''solid'' then
        fillRect (cv\<lparr>ctx_fillStyle := Color (cfg_bg c)\<rparr>) 0 0 (cfg_w c) (cfg_h c)
      else if cfg_template c = ''gradient'' then
        (let gradient =
               LinearGradient 0 0 (cfg_w c) (cfg_h c) [(0, cfg_bg c), (1, cfg_grad c)]
         in fillRect (cv\<lparr>ctx_fillStyle := gradient\<rparr>) 0 0 (cfg_w c) (cfg_h c))
      else
        (let cv1 = fillRect (cv\<lparr>ctx_fillStyle := Color (cfg_bg c)\<rparr>) 0 0 (cfg_w c) (cfg_h c);
             cv2 = save cv1;
             cv3 = cv2\<lparr>ctx_globalAlpha := 2 / 10, ctx_fillStyle := Color (cfg_grad c)\<rparr>;
             cv4 = checkerRows c 0 cv3
         in restore cv4))"

text \<open>
  \<open>loadImage\<close> is the browser's decoder, a parameter: \<^const>\<open>None\<close> where the image's
  \<open>onerror\<close> fires and the promise is rejected. \<open>uploadedBannerDataURL\<close> is \<open>null\<close>
  (\<^const>\<open>None\<close>) or a string, and a string is truthy when it is not empty.
\<close>

definition drawBackground ::
  "(src \<Rightarrow> img option) \<Rightarrow> canvas \<Rightarrow> config \<Rightarrow> string option \<Rightarrow> error + canvas" where
  "drawBackground loadImage cv c uploadedBannerDataURL =
     (case uploadedBannerDataURL of
        Some u \<Rightarrow>
          if cfg_mode c = ''upload'' \<and> u \<noteq> [] then
            (case loadImage (DataURL u) of
               None \<Rightarrow> Inl DecodeFailure
             | Some bannerImg \<Rightarrow> Inr (drawImage cv bannerImg (Some 0) (Some 0) (cfg_w c) (cfg_h c)))
          else Inr (drawTemplateBackground cv c)
      | None \<Rightarrow> Inr (drawTemplateBackground cv c))"

definition drawText :: "canvas \<Rightarrow> config \<Rightarrow> canvas" where
  "drawText cv c =
     (let cv1 = cv\<lparr>ctx_fillStyle := Color (cfg_tcol c), ctx_font := BoldArial (cfg_fs c),
                    ctx_textAlign := ''center'', ctx_textBaseline := ''alphabetic''\<rparr>;
          y = (if cfg_tpos c = ''top'' then cfg_fs c + 16 else cfg_h c - 16)
      in fillText cv1 (cfg_text c) (cfg_w c / 2) y)"

text \<open>
  \<open>drawLogo\<close>: the SVG text is loaded as an image through an object URL, which is
  revoked whether the load succeeds or not; the URL itself is not part of the model.
\<close>

definition drawLogo ::
  "(src \<Rightarrow> img option) \<Rightarrow> canvas \<Rightarrow> config \<Rightarrow> string \<Rightarrow> error + canvas" where
  "drawLogo loadImage cv c vectorSVG =
     (case loadImage (SvgBlobURL vectorSVG) of
        None \<Rightarrow> Inl DecodeFailure
      | Some im \<Rightarrow>
          (let p = calculateLogoPosition c im
           in Inr (drawImage cv im (logo_x p) (logo_y p) (logo_width p) (logo_height p))))"

text \<open>
  \<open>generateBanner\<close>: the canvas it returns (and stores in \<open>this.canvas\<close>), or the
  error its promise is rejected with. \<open>if (config.text)\<close>: a string is truthy when it
  is not empty.
\<close>

definition generateBanner ::
  "(src \<Rightarrow> img option) \<Rightarrow> config \<Rightarrow> string \<Rightarrow> string option \<Rightarrow> error + canvas" where
  "generateBanner loadImage c vectorSVG uploadedBannerDataURL =
     (let cv0 = (createCanvas (cfg_w c) (cfg_h c))
                  \<lparr>ctx_imageSmoothingEnabled := True, ctx_imageSmoothingQuality := ''high''\<rparr>
      in case drawBackground loadImage cv0 c uploadedBannerDataURL of
           Inl e \<Rightarrow> Inl e
         | Inr cv1 \<Rightarrow>
             (let cv2 = (if cfg_text c \<noteq> [] then drawText cv1 c else cv1)
              in drawLogo loadImage cv2 c vectorSVG))"

section \<open>utils.js: validateHexColor\<close>

text \<open>A string is a list of 8-bit characters; \<open>trim\<close> removes the white space of ASCII.\<close>

definition isWhiteSpace :: "char \<Rightarrow> bool" where
  "isWhiteSpace ch = (ch \<in> set [CHR '' '', CHR 0x09, CHR 0x0A, CHR 0x0B, CHR 0x0C, CHR 0x0D])"

definition trim :: "string \<Rightarrow> string" where
  "trim s = rev (dropWhile isWhiteSpace (rev (dropWhile isWhiteSpace s)))"

text \<open>\<open>s.replace('#', '')\<close>: the first \<open>#\<close> only.\<close>

fun removeFirst :: "char \<Rightarrow> string \<Rightarrow> string" where
  "removeFirst ch [] = []"
| "removeFirst ch (d # ds) = (if d = ch then ds else d # removeFirst ch ds)"

definition isHexDigit :: "char \<Rightarrow> bool" where
  "isHexDigit ch = (ch \<in> set ''0123456789ABCDEFabcdef'')"

definition validateHexColor :: "string \<Rightarrow> string option" where
  "validateHexColor hexValue =
     (let hex = removeFirst (CHR ''#'') (trim hexValue)
      in if length hex = 6 \<and> list_all isHexDigit hex then Some (''#'' @ hex) else None)"

section \<open>logoProcessor.js\<close>

text \<open>
  The four stages a \<open>LogoProcessor\<close> stores. A data URL made by \<open>canvas.toDataURL\<close>
  is modelled by the raster it encodes (PNG is lossless), \<open>null\<close> by \<^const>\<open>None\<close>.
\<close>

record LogoProcessor =
  originalDataURL :: "img option"
  processedDataURL :: "img option"
  bitmapDataURL :: "img option"
  vectorSVGContent :: "string option"

subsection \<open>loadLogo\<close>

text \<open>
  The regular expressions of the source are literals, sequences, alternatives and
  options. \<open>matchPrefix r s\<close> lists what is left of \<open>s\<close> after each way \<open>r\<close> matches
  a prefix of it, in the order a backtracking matcher tries them. With the flag \<open>i\<close>
  two characters match when their canonical forms are equal: the upper-case letter for
  a letter from \<open>a\<close> to \<open>z\<close>, the character itself otherwise (without the flag \<open>u\<close> no
  character outside ASCII is mapped into ASCII). The test between \<open>^\<close> and \<open>$\<close>
  succeeds when some match leaves nothing.
\<close>

datatype regex = Lit string | Seq regex regex | Alt regex regex | Opt regex

definition canonicalize :: "char \<Rightarrow> char" where
  "canonicalize ch =
     (if 97 \<le> (of_char ch :: nat) \<and> (of_char ch :: nat) \<le> 122
      then char_of ((of_char ch :: nat) - 32) else ch)"

fun matchPrefix :: "regex \<Rightarrow> string \<Rightarrow> string list" where
  "matchPrefix (Lit cs) s =
     (if length cs \<le> length s \<and> map canonicalize (take (length cs) s) = map canonicalize cs
      then [drop (length cs) s] else [])"
| "matchPrefix (Seq r1 r2) s = concat (map (matchPrefix r2) (matchPrefix r1 s))"
| "matchPrefix (Alt r1 r2) s = matchPrefix r1 s @ matchPrefix r2 s"
| "matchPrefix (Opt r) s = matchPrefix r s @ [s]"

definition regex_test :: "regex \<Rightarrow> string \<Rightarrow> bool" where
  "regex_test r s = ([] \<in> set (matchPrefix r s))"

text \<open>\<open>/^image\/(png|jpe?g)$/i\<close>\<close>

definition imageTypeRegex :: regex where
  "imageTypeRegex =
     Seq (Lit ''image/'')
         (Alt (Lit ''png'') (Seq (Lit ''jp'') (Seq (Opt (Lit ''e'')) (Lit ''g''))))"

record File =
  file_type :: string
  file_bytes :: "byte list"

text \<open>
  What the browser does for \<open>loadLogo\<close>, as parameters: \<open>readAsDataURL\<close> is the
  \<open>FileReader\<close> (\<^const>\<open>None\<close> where \<open>onerror\<close> fires), \<open>decodeImage\<close> the decoding of an
  \<open>Image\<close> from the data URL read (\<^const>\<open>None\<close> where \<open>onerror\<close> fires), \<open>resample\<close>
  the scaled \<open>drawImage\<close> of \<open>clampImageToMax\<close>.
\<close>

record browser =
  readAsDataURL :: "byte list \<Rightarrow> string option"
  decodeImage :: "string \<Rightarrow> img option"
  resample :: "img \<Rightarrow> nat \<Rightarrow> nat \<Rightarrow> byte list"

text \<open>The accesses to the file that a call made, the oldest first.\<close>

datatype access = FileRead | ImageDecode

text \<open>
  \<open>loadLogo(file)\<close>: the result (the error thrown or the promise's rejection, or the
  data URL resolved), the processor afterwards, and the accesses to the file.
\<close>

definition loadLogo ::
  "browser \<Rightarrow> LogoProcessor \<Rightarrow> File \<Rightarrow> (error + img) \<times> LogoProcessor \<times> access list" where
  "loadLogo env this f =
     (if \<not> regex_test imageTypeRegex (file_type f) then (Inl UnsupportedFormat, this, [])
      else
        (case readAsDataURL env (file_bytes f) of
           None \<Rightarrow> (Inl ReadFailure, this, [FileRead])
         | Some result \<Rightarrow>
             (case decodeImage env result of
                None \<Rightarrow> (Inl DecodeFailure, this, [FileRead, ImageDecode])
              | Some im \<Rightarrow>
                  (let dataURL = clampImageToMax (resample env) im 800
                   in (Inr dataURL,
                       this\<lparr>originalDataURL := Some dataURL, processedDataURL := Some dataURL,
                            bitmapDataURL := None, vectorSVGContent := None\<rparr>,
                       [FileRead, ImageDecode])))))"

subsection \<open>extractDominantColor\<close>

text \<open>
  \<open>colorCount\<close> is an object whose keys are the strings \<open>r,g,b\<close>; the key is modelled by
  the triple it prints and is parsed back to. \<open>Object.entries\<close> lists such keys in the
  order they were first set, so the object is an association list in that order.
\<close>

type_synonym colorCount = "((int \<times> int \<times> int) \<times> nat) list"

fun increment :: "colorCount \<Rightarrow> int \<times> int \<times> int \<Rightarrow> colorCount" where
  "increment [] key = [(key, 1)]"
| "increment ((k, n) # rest) key =
     (if k = key then (k, n + 1) # rest else (k, n) # increment rest key)"

definition roundTo10 :: "byte \<Rightarrow> int" where
  "roundTo10 v = Math_round (real (unat v) / 10) * 10"

text \<open>
  \<open>for (let i = 0; i < data.length; i += 16)\<close>. The array of an \<open>ImageData\<close> has four
  bytes a pixel, so \<open>i + 3\<close> is in range wherever \<open>i\<close> is.
\<close>

function countColors :: "byte list \<Rightarrow> nat \<Rightarrow> colorCount \<Rightarrow> colorCount" where
  "countColors data i cc =
     (if i < length data then
        (let alpha = data ! (i + 3) in
         if unat alpha < 128 then countColors data (i + 16) cc
         else
           (let r = roundTo10 (data ! i);
                g = roundTo10 (data ! (i + 1));
                b = roundTo10 (data ! (i + 2));
                key = (r, g, b)
            in countColors data (i + 16) (increment cc key)))
      else cc)"
  by pat_completeness auto
termination
  by (relation "measure (\<lambda>(data, i, cc). length data - i)") auto

declare countColors.simps [simp del]

text \<open>\<open>n.toString(16)\<close> and \<open>s.padStart(2, '0')\<close>.\<close>

definition hexDigit :: "nat \<Rightarrow> char" where
  "hexDigit d = ''0123456789abcdef'' ! d"

fun digits16 :: "nat \<Rightarrow> string" where
  "digits16 n = (if n < 16 then [hexDigit n] else digits16 (n div 16) @ [hexDigit (n mod 16)])"

declare digits16.simps [simp del]

definition toString16 :: "int \<Rightarrow> string" where
  "toString16 k = (if k < 0 then ''-'' @ digits16 (nat (- k)) else digits16 (nat k))"

definition padStart :: "nat \<Rightarrow> char \<Rightarrow> string \<Rightarrow> string" where
  "padStart n ch s = replicate (n - length s) ch @ s"

definition hexColor :: "int \<Rightarrow> int \<Rightarrow> int \<Rightarrow> string" where
  "hexColor r g b =
     ''#'' @ padStart 2 (CHR ''0'') (toString16 r) @ padStart 2 (CHR ''0'') (toString16 g)
          @ padStart 2 (CHR ''0'') (toString16 b)"

text \<open>The loop over \<open>Object.entries(colorCount)\<close>, with \<open>dominantColor\<close> and \<open>maxCount\<close>.\<close>

fun mostCommon :: "colorCount \<Rightarrow> string \<Rightarrow> nat \<Rightarrow> string" where
  "mostCommon [] dominantColor maxCount = dominantColor"
| "mostCommon (((r, g, b), count) # rest) dominantColor maxCount =
     (if r > 240 \<and> g > 240 \<and> b > 240 then mostCommon rest dominantColor maxCount
      else if count > maxCount then mostCommon rest (hexColor r g b) count
      else mostCommon rest dominantColor maxCount)"

definition extractDominantColor :: "img \<Rightarrow> string" where
  "extractDominantColor dataURL =
     (let data = img_data dataURL;
          colorCount = countColors data 0 []
      in mostCommon colorCount ''#1d4ed8'' 0)"

subsection \<open>convertToBitmap\<close>

text \<open>
  The body of the loop at offset \<open>i\<close>: the four bytes of one pixel are overwritten.
  The literals \<open>0.299\<close>, \<open>0.587\<close> and \<open>0.114\<close> are read as the exact fractions. As in
  \<open>countColors\<close>, the reads are in range for the array of an \<open>ImageData\<close>, whose length
  is four times the number of pixels (\<open>wellFormed\<close> below); the model says nothing of
  other arrays.
\<close>

definition bitmapPixel :: "real \<Rightarrow> byte list \<Rightarrow> nat \<Rightarrow> byte list" where
  "bitmapPixel threshold data i =
     (let alpha = data ! (i + 3) in
      if unat alpha < 64 then data[i := 255, i + 1 := 255, i + 2 := 255, i + 3 := 255]
      else
        (let luminance = 299 / 1000 * real (unat (data ! i))
                       + 587 / 1000 * real (unat (data ! (i + 1)))
                       + 114 / 1000 * real (unat (data ! (i + 2)));
             isBlack = (luminance < threshold * 255);
             data' = (if isBlack then data[i := 0, i + 1 := 0, i + 2 := 0]
                      else data[i := 255, i + 1 := 255, i + 2 := 255])
         in data'[i + 3 := 255]))"

text \<open>\<open>for (let i = 0; i < data.length; i += 4)\<close>\<close>

function bitmapLoop :: "real \<Rightarrow> byte list \<Rightarrow> nat \<Rightarrow> byte list" where
  "bitmapLoop threshold data i =
     (if i < length data then bitmapLoop threshold (bitmapPixel threshold data i) (i + 4)
      else data)"
  by pat_completeness auto
termination
  by (relation "measure (\<lambda>(threshold, data, i). length data - i)")
     (auto simp: bitmapPixel_def Let_def)

declare bitmapLoop.simps [simp del]

text \<open>
  \<open>convertToBitmap(threshold)\<close>: the error thrown or the bitmap resolved, and the
  processor afterwards. The image drawn is \<open>this.processedDataURL\<close>, at its own size
  and without smoothing.
\<close>

definition convertToBitmap ::
  "LogoProcessor \<Rightarrow> real \<Rightarrow> (error + img) \<times> LogoProcessor" where
  "convertToBitmap this threshold =
     (case processedDataURL this of
        None \<Rightarrow> (Inl NoSourceImage, this)
      | Some im \<Rightarrow>
          (let bitmap = im\<lparr>img_data := bitmapLoop threshold (img_data im) 0\<rparr>
           in (Inr bitmap, this\<lparr>bitmapDataURL := Some bitmap\<rparr>)))"

section \<open>Notions of the specification\<close>

text \<open>
  The doubles: \<open>minUlp\<close> is the smallest positive one, and \<open>isUlp v u j\<close> says that \<open>u\<close>
  is the spacing of the doubles around \<open>v\<close>, the \<open>j\<close>-th power of two from \<open>minUlp\<close>.
  \<open>roundingBound v\<close> is the most that the rounding of \<open>v \<ge> 0\<close> can be: one part in
  \<open>2 ^ 53\<close> above \<open>v\<close>, or half of \<open>minUlp\<close>.
\<close>

definition minUlp :: real where
  "minUlp = 1 / 2 ^ 1074"

definition isUlp :: "real \<Rightarrow> real \<Rightarrow> nat \<Rightarrow> bool" where
  "isUlp v u j \<longleftrightarrow>
     j \<le> 2045 \<and> u = 2 ^ j * minUlp
     \<and> (0 < j \<longrightarrow> 2 ^ 52 * u \<le> \<bar>v\<bar>) \<and> (j < 2045 \<longrightarrow> \<bar>v\<bar> < 2 ^ 53 * u)"

definition roundingBound :: "real \<Rightarrow> real" where
  "roundingBound v = v * (1 + 1 / 2 ^ 53) + minUlp / 2"

text \<open>
  The strings a regular expression accepts, in canonical form: the test of \<open>loadLogo\<close>
  is compared with the three media types the specification lists.
\<close>

fun alternatives :: "regex \<Rightarrow> string list" where
  "alternatives (Lit cs) = [map canonicalize cs]"
| "alternatives (Seq r1 r2) =
     concat (map (\<lambda>u. map (\<lambda>v. u @ v) (alternatives r2)) (alternatives r1))"
| "alternatives (Alt r1 r2) = alternatives r1 @ alternatives r2"
| "alternatives (Opt r) = alternatives r @ [[]]"

definition acceptedTypes :: "string list" where
  "acceptedTypes = [''image/png'', ''image/jpeg'', ''image/jpg'']"

text \<open>
  Pixel \<open>p\<close> of an RGBA byte array, the two colours of a bitmap mask, and the arrays
  that hold four bytes for each pixel of the image.
\<close>

type_synonym pixel = "byte \<times> byte \<times> byte \<times> byte"

definition pixelAt :: "byte list \<Rightarrow> nat \<Rightarrow> pixel" where
  "pixelAt data p = (data ! (4 * p), data ! (4 * p + 1), data ! (4 * p + 2), data ! (4 * p + 3))"

definition black :: pixel where
  "black = (0, 0, 0, 255)"

definition white :: pixel where
  "white = (255, 255, 255, 255)"

definition alphaAt :: "byte list \<Rightarrow> nat \<Rightarrow> nat" where
  "alphaAt data p = unat (data ! (4 * p + 3))"

definition wellFormed :: "img \<Rightarrow> bool" where
  "wellFormed im = (length (img_data im) = 4 * (img_width im * img_height im))"

definition isBitmap :: "img \<Rightarrow> bool" where
  "isBitmap im =
     (wellFormed im \<and>
      list_all (\<lambda>p. pixelAt (img_data im) p = black \<or> pixelAt (img_data im) p = white)
        [0 ..< img_width im * img_height im])"

text \<open>What the body of the loop of \<open>convertToBitmap\<close> makes of one pixel.\<close>

fun binarize :: "real \<Rightarrow> pixel \<Rightarrow> pixel" where
  "binarize threshold (r, g, b, a) =
     (if unat a < 64 then white
      else if 299 / 1000 * real (unat r) + 587 / 1000 * real (unat g) + 114 / 1000 * real (unat b)
              < threshold * 255
           then black else white)"

text \<open>
  The canvas \<open>generateBanner\<close> starts from, and the two calls that \<open>drawText\<close> and
  \<open>drawLogo\<close> make.
\<close>

definition bannerCanvas :: "config \<Rightarrow> canvas" where
  "bannerCanvas c =
     (createCanvas (cfg_w c) (cfg_h c))
       \<lparr>ctx_imageSmoothingEnabled := True, ctx_imageSmoothingQuality := ''high''\<rparr>"

definition textOp :: "config \<Rightarrow> drawOp" where
  "textOp c =
     FillText (cfg_text c) (Color (cfg_tcol c)) (BoldArial (cfg_fs c)) ''center'' ''alphabetic''
       (cfg_w c / 2) (if cfg_tpos c = ''top'' then cfg_fs c + 16 else cfg_h c - 16)"

definition logoOp :: "config \<Rightarrow> img \<Rightarrow> drawOp" where
  "logoOp c im =
     (let p = calculateLogoPosition c im
      in DrawImage im (logo_x p) (logo_y p) (logo_width p) (logo_height p))"

subsection \<open>Sample inputs\<close>

text \<open>The configuration the application starts with (\<open>app.js\<close>).\<close>

definition defaultConfig :: config where
  "defaultConfig =
     \<lparr>cfg_template = ''gradient'', cfg_w = 1200, cfg_h = 630,
      cfg_bg = ''#ffffff'', cfg_grad = ''#2563eb'',
      cfg_text = [], cfg_tpos = ''bottom'', cfg_tcol = ''#ffffff'', cfg_fs = 36,
      cfg_logoPos = ''center'', cfg_logoSizePct = 25, cfg_mode = ''create''\<rparr>"

definition sevenPercent :: config where
  "sevenPercent = defaultConfig\<lparr>cfg_logoSizePct := 7\<rparr>"

definition wideLogo :: img where
  "wideLogo = \<lparr>img_width = 2000, img_height = 1000, img_data = []\<rparr>"

definition noBrowser :: browser where
  "noBrowser =
     \<lparr>readAsDataURL = (\<lambda>_. None), decodeImage = (\<lambda>_. None), resample = (\<lambda>_ _ _. [])\<rparr>"

definition emptyProcessor :: LogoProcessor where
  "emptyProcessor =
     \<lparr>originalDataURL = None, processedDataURL = None, bitmapDataURL = None,
      vectorSVGContent = None\<rparr>"

definition gifFile :: File where
  "gifFile = \<lparr>file_type = ''image/gif'', file_bytes = [71, 73, 70]\<rparr>"

definition redAndClear :: img where
  "redAndClear =
     \<lparr>img_width = 2, img_height = 1, img_data = [255, 0, 0, 255, 10, 20, 30, 10]\<rparr>"

definition blackAndWhite :: img where
  "blackAndWhite =
     \<lparr>img_width = 2, img_height = 1, img_data = [0, 0, 0, 255, 255, 255, 255, 255]\<rparr>"

text \<open>
  Forty opaque pixels, thirty-six of them \<open>(250, 250, 250)\<close> and four \<open>(0, 0, 255)\<close>: of
  the ten that \<open>extractDominantColor\<close> samples, nine are near-white and one is blue.
\<close>

definition nearWhiteAndBlue :: img where
  "nearWhiteAndBlue =
     \<lparr>img_width = 40, img_height = 1,
      img_data = concat (replicate 36 [250, 250, 250, 255]) @ concat (replicate 4 [0, 0, 255, 255])\<rparr>"

definition helloConfig :: config where
  "helloConfig = defaultConfig\<lparr>cfg_template := ''solid'', cfg_text := ''Hello''\<rparr>"

definition uploadConfig :: config where
  "uploadConfig = defaultConfig\<lparr>cfg_mode := ''upload''\<rparr>"

definition checkerConfig :: config where
  "checkerConfig = defaultConfig\<lparr>cfg_template := ''pattern'', cfg_w := 80, cfg_h := 40\<rparr>"

text \<open>A decoder that loads every SVG blob as a 2000 by 1000 image.\<close>

definition svgLoader :: "src \<Rightarrow> img option" where
  "svgLoader s = (case s of SvgBlobURL _ \<Rightarrow> Some wideLogo | DataURL _ \<Rightarrow> None)"

section \<open>The size of a loaded logo\<close>

lemma nat_round_le: "v \<le> real k \<Longrightarrow> nat (Math_round v) \<le> k"
  unfolding Math_round_def by linarith

lemma nat_round_eq: "v = real k \<Longrightarrow> nat (Math_round v) = k"
  unfolding Math_round_def by linarith

lemma nat_round_near: "0 \<le> v \<Longrightarrow> \<bar>real (nat (Math_round v)) - v\<bar> \<le> 1 / 2"
  unfolding Math_round_def by linarith

lemma scale_le_one:
  assumes "maxSide < real m" "0 \<le> maxSide"
  shows "real k * (maxSide / real m) \<le> real k"
proof -
  have "maxSide / real m \<le> 1" using assms by simp
  then have "real k * (maxSide / real m) \<le> real k * 1"
    by (intro mult_left_mono) simp_all
  then show ?thesis by simp
qed

lemma scale_le_max:
  assumes "maxSide < real m" "0 \<le> maxSide" "k \<le> m"
  shows "real k * (maxSide / real m) \<le> maxSide"
proof -
  have "0 < real m" using assms by linarith
  then have "real k / real m \<le> 1" using assms by simp
  then have "maxSide * (real k / real m) \<le> maxSide * 1"
    using assms by (intro mult_left_mono) simp_all
  then show ?thesis by (simp add: mult.commute)
qed

lemma clamp_small:
  "real (max (img_width im) (img_height im)) \<le> maxSide \<Longrightarrow>
   img_width (clampImageToMax rs im maxSide) = img_width im \<and>
   img_height (clampImageToMax rs im maxSide) = img_height im"
  by (simp add: clampImageToMax_def Let_def)

lemma clamp_large:
  "maxSide < real (max (img_width im) (img_height im)) \<Longrightarrow>
   s = maxSide / real (max (img_width im) (img_height im)) \<Longrightarrow>
   img_width (clampImageToMax rs im maxSide) = nat (Math_round (real (img_width im) * s)) \<and>
   img_height (clampImageToMax rs im maxSide) = nat (Math_round (real (img_height im) * s))"
  by (simp add: clampImageToMax_def Let_def)

text \<open>
  Claim C3. With \<open>maxSide = 800\<close>, \<open>clampImageToMax\<close> keeps the size of an image whose
  longer side is at most 800. Where the longer side exceeds 800, the longer side of the
  result is exactly 800 and the shorter side is within one half of the proportional
  value (it is that value rounded to the nearest integer). The result is never larger
  than the image, in either dimension.
\<close>

theorem clampImageToMax_800:
  "let out = clampImageToMax rs im 800;
       w = img_width im; h = img_height im; m = max w h
   in (m \<le> 800 \<longrightarrow> img_width out = w \<and> img_height out = h)
    \<and> (800 < m \<longrightarrow>
         max (img_width out) (img_height out) = 800
       \<and> (h \<le> w \<longrightarrow> img_width out = 800
            \<and> \<bar>real (img_height out) - real h * 800 / real w\<bar> \<le> 1 / 2)
       \<and> (w \<le> h \<longrightarrow> img_height out = 800
            \<and> \<bar>real (img_width out) - real w * 800 / real h\<bar> \<le> 1 / 2))
    \<and> img_width out \<le> w \<and> img_height out \<le> h"
proof -
  define w h m where "w = img_width im" and "h = img_height im" and "m = max w h"
  define out where "out = clampImageToMax rs im 800"
  define s :: real where "s = 800 / real m"
  have small: "img_width out = w \<and> img_height out = h" if "m \<le> 800"
    using that clamp_small [of im 800 rs] by (simp add: w_def h_def m_def out_def)
  have large: "img_width out = nat (Math_round (real w * s))"
              "img_height out = nat (Math_round (real h * s))" if "800 < m"
    using that clamp_large [of 800 im s rs] by (simp_all add: w_def h_def m_def out_def s_def)
  have s_pos: "0 \<le> real k * s" for k by (simp add: s_def)
  have s_le: "real k * s \<le> real k" if "800 < m" for k
    using that scale_le_one [of 800 m k] by (simp add: s_def)
  have s_800: "real k * s \<le> 800" if "800 < m" "k \<le> m" for k
    using that scale_le_max [of 800 m k] by (simp add: s_def)
  have s_self: "real m * s = real (800::nat)" if "800 < m"
    using that by (simp add: s_def)
  have wide: "img_width out = 800 \<and> \<bar>real (img_height out) - real h * 800 / real w\<bar> \<le> 1 / 2"
    if "800 < m" "h \<le> w"
  proof -
    from that have mw: "m = w" by (simp add: m_def)
    have "img_width out = 800"
      using large(1) [OF that(1)] nat_round_eq [OF s_self [OF that(1)]] by (simp add: mw)
    moreover have "\<bar>real (img_height out) - real h * s\<bar> \<le> 1 / 2"
      using large(2) [OF that(1)] nat_round_near [OF s_pos [of h]] by simp
    moreover have "real h * s = real h * 800 / real w" by (simp add: s_def mw)
    ultimately show ?thesis by simp
  qed
  have tall: "img_height out = 800 \<and> \<bar>real (img_width out) - real w * 800 / real h\<bar> \<le> 1 / 2"
    if "800 < m" "w \<le> h"
  proof -
    from that have mh: "m = h" by (simp add: m_def)
    have "img_height out = 800"
      using large(2) [OF that(1)] nat_round_eq [OF s_self [OF that(1)]] by (simp add: mh)
    moreover have "\<bar>real (img_width out) - real w * s\<bar> \<le> 1 / 2"
      using large(1) [OF that(1)] nat_round_near [OF s_pos [of w]] by simp
    moreover have "real w * s = real w * 800 / real h" by (simp add: s_def mh)
    ultimately show ?thesis by simp
  qed
  have longer: "max (img_width out) (img_height out) = 800" if "800 < m"
  proof -
    have "img_width out \<le> 800" "img_height out \<le> 800"
      using large [OF that] nat_round_le [of "real w * s" 800] nat_round_le [of "real h * s" 800]
        s_800 [OF that, of w] s_800 [OF that, of h]
      by (simp_all add: m_def)
    moreover have "img_width out = 800 \<or> img_height out = 800"
      using wide [OF that] tall [OF that] by linarith
    ultimately show ?thesis by linarith
  qed
  have noup: "img_width out \<le> w \<and> img_height out \<le> h"
  proof (cases "m \<le> 800")
    case True
    then show ?thesis using small by simp
  next
    case False
    then have big: "800 < m" by simp
    show ?thesis
      using large [OF big] nat_round_le [OF s_le [OF big, of w]] nat_round_le [OF s_le [OF big, of h]]
      by simp
  qed
  show ?thesis
    using small wide tall longer noup
    unfolding Let_def w_def [symmetric] h_def [symmetric] m_def [symmetric] out_def [symmetric]
    by blast
qed

text \<open>A 2000 by 1000 logo is loaded as 800 by 400.\<close>

theorem clampImageToMax_800_witness:
  "(800::nat) < max (img_width wideLogo) (img_height wideLogo)
   \<and> img_height wideLogo \<le> img_width wideLogo
   \<and> img_width (clampImageToMax (resample noBrowser) wideLogo 800) = 800
   \<and> img_height (clampImageToMax (resample noBrowser) wideLogo 800) = 400"
proof -
  have big: "(800::nat) < max (img_width wideLogo) (img_height wideLogo)"
    and wide: "img_height wideLogo \<le> img_width wideLogo"
    by (simp_all add: wideLogo_def)
  have size: "img_width wideLogo = 2000" "img_height wideLogo = 1000"
    by (simp_all add: wideLogo_def)
  define out where "out = clampImageToMax (resample noBrowser) wideLogo 800"
  have "img_width out = 800 \<and> \<bar>real (img_height out) - 400\<bar> \<le> 1 / 2"
    using clampImageToMax_800 [of "resample noBrowser" wideLogo]
    by (simp add: Let_def out_def [symmetric] size)
  then have "img_width out = 800 \<and> img_height out = 400" by linarith
  with big wide show ?thesis by (simp add: out_def)
qed

section \<open>The rounding of doubles\<close>

lemma roundEven_cases: "roundEven v = \<lfloor>v\<rfloor> \<or> roundEven v = \<lfloor>v\<rfloor> + 1"
  by (simp add: roundEven_def Let_def)

lemma roundEven_of_int: "roundEven (real_of_int n) = n"
  by (simp add: roundEven_def Let_def)

lemma roundEven_near: "\<bar>real_of_int (roundEven v) - v\<bar> \<le> 1 / 2"
  unfolding roundEven_def Let_def by (auto; linarith)

lemma roundEven_mono:
  assumes "v \<le> w"
  shows "roundEven v \<le> roundEven w"
proof (cases "\<lfloor>v\<rfloor> = \<lfloor>w\<rfloor>")
  case True
  then have "v - real_of_int \<lfloor>v\<rfloor> \<le> w - real_of_int \<lfloor>w\<rfloor>" using assms by simp
  then show ?thesis
    using True unfolding roundEven_def Let_def by (auto split: if_splits)
next
  case False
  with assms have "\<lfloor>v\<rfloor> < \<lfloor>w\<rfloor>" by (simp add: floor_mono order.strict_iff_order)
  then have "\<lfloor>v\<rfloor> + 1 \<le> \<lfloor>w\<rfloor>" by simp
  moreover have "roundEven v \<le> \<lfloor>v\<rfloor> + 1" using roundEven_cases [of v] by auto
  moreover have "\<lfloor>w\<rfloor> \<le> roundEven w" using roundEven_cases [of w] by auto
  ultimately show ?thesis by linarith
qed

lemma roundEven_le: "v \<le> real_of_int n \<Longrightarrow> roundEven v \<le> n"
  using roundEven_mono [of v "real_of_int n"] by (simp add: roundEven_of_int)

lemma roundEven_ge: "real_of_int n \<le> v \<Longrightarrow> n \<le> roundEven v"
  using roundEven_mono [of "real_of_int n" v] by (simp add: roundEven_of_int)

lemma ulpDown_spec:
  assumes "0 < g" and "v < 2 ^ 53 * g"
  shows "\<exists>i \<le> k. ulpDown k g v = g / 2 ^ i \<and> (i < k \<longrightarrow> 2 ^ 52 * (g / 2 ^ i) \<le> v)
           \<and> v < 2 ^ 53 * (g / 2 ^ i)"
  using assms
proof (induction k arbitrary: g)
  case 0
  then show ?case by simp
next
  case (Suc k)
  show ?case
  proof (cases "v < 2 ^ 52 * g")
    case True
    have "0 < g / 2" "v < 2 ^ 53 * (g / 2)" using Suc.prems True by simp_all
    from Suc.IH [OF this] obtain i where i: "i \<le> k" "ulpDown k (g / 2) v = g / 2 / 2 ^ i"
      "i < k \<longrightarrow> 2 ^ 52 * (g / 2 / 2 ^ i) \<le> v" "v < 2 ^ 53 * (g / 2 / 2 ^ i)" by blast
    have eq: "g / 2 / 2 ^ i = g / 2 ^ Suc i" by simp
    have "Suc i \<le> Suc k \<and> ulpDown (Suc k) g v = g / 2 ^ Suc i
          \<and> (Suc i < Suc k \<longrightarrow> 2 ^ 52 * (g / 2 ^ Suc i) \<le> v) \<and> v < 2 ^ 53 * (g / 2 ^ Suc i)"
      using i True unfolding eq by simp
    then show ?thesis by blast
  next
    case False
    then have "0 \<le> Suc k \<and> ulpDown (Suc k) g v = g / 2 ^ 0
          \<and> (0 < Suc k \<longrightarrow> 2 ^ 52 * (g / 2 ^ 0) \<le> v) \<and> v < 2 ^ 53 * (g / 2 ^ 0)"
      using Suc.prems by simp
    then show ?thesis by blast
  qed
qed

lemma ulpUp_spec:
  assumes "0 < g" and "2 ^ 52 * g \<le> v"
  shows "\<exists>i \<le> k. ulpUp k g v = g * 2 ^ i \<and> 2 ^ 52 * (g * 2 ^ i) \<le> v
           \<and> (i < k \<longrightarrow> v < 2 ^ 53 * (g * 2 ^ i))"
  using assms
proof (induction k arbitrary: g)
  case 0
  then show ?case by simp
next
  case (Suc k)
  show ?case
  proof (cases "2 ^ 53 * g \<le> v")
    case True
    have "0 < 2 * g" "2 ^ 52 * (2 * g) \<le> v" using Suc.prems True by simp_all
    from Suc.IH [OF this] obtain i where i: "i \<le> k" "ulpUp k (2 * g) v = 2 * g * 2 ^ i"
      "2 ^ 52 * (2 * g * 2 ^ i) \<le> v" "i < k \<longrightarrow> v < 2 ^ 53 * (2 * g * 2 ^ i)" by blast
    have eq: "2 * g * 2 ^ i = g * 2 ^ Suc i" by simp
    have "Suc i \<le> Suc k \<and> ulpUp (Suc k) g v = g * 2 ^ Suc i
          \<and> 2 ^ 52 * (g * 2 ^ Suc i) \<le> v \<and> (Suc i < Suc k \<longrightarrow> v < 2 ^ 53 * (g * 2 ^ Suc i))"
      using i True unfolding eq by simp
    then show ?thesis by blast
  next
    case False
    then have "0 \<le> Suc k \<and> ulpUp (Suc k) g v = g * 2 ^ 0
          \<and> 2 ^ 52 * (g * 2 ^ 0) \<le> v \<and> (0 < Suc k \<longrightarrow> v < 2 ^ 53 * (g * 2 ^ 0))"
      using Suc.prems by simp
    then show ?thesis by blast
  qed
qed



lemma minUlp_pos: "0 < minUlp"
  by (simp add: minUlp_def)

lemma grid_up: "2 ^ (1074 + i) * minUlp = 2 ^ i"
  by (simp add: minUlp_def power_add)

lemma grid_down: "i \<le> 1074 \<Longrightarrow> 2 ^ (1074 - i) * minUlp = 1 / 2 ^ i"
  by (simp add: minUlp_def power_diff)

lemma ulp_isUlp: "\<exists>j. isUlp v (ulp v) j"
proof (cases "2 ^ 53 \<le> \<bar>v\<bar>")
  case True
  then have "(2::real) ^ 52 * 1 \<le> \<bar>v\<bar>" by simp
  from ulpUp_spec [OF _ this, of 971] obtain i where i: "i \<le> 971" "ulpUp 971 1 \<bar>v\<bar> = 1 * 2 ^ i"
    "2 ^ 52 * (1 * 2 ^ i) \<le> \<bar>v\<bar>" "i < 971 \<longrightarrow> \<bar>v\<bar> < 2 ^ 53 * (1 * 2 ^ i)" by auto
  have u: "ulp v = 2 ^ i" using True i(2) by (simp add: ulp_def)
  have "isUlp v (ulp v) (1074 + i)"
    unfolding isUlp_def grid_up u using i by simp
  then show ?thesis by blast
next
  case False
  then have "\<bar>v\<bar> < 2 ^ 53 * 1" by simp
  from ulpDown_spec [OF _ this, of 1074] obtain i where i: "i \<le> 1074"
    "ulpDown 1074 1 \<bar>v\<bar> = 1 / 2 ^ i"
    "i < 1074 \<longrightarrow> 2 ^ 52 * (1 / 2 ^ i) \<le> \<bar>v\<bar>" "\<bar>v\<bar> < 2 ^ 53 * (1 / 2 ^ i)" by auto
  have u: "ulp v = 1 / 2 ^ i" using False i(2) by (simp add: ulp_def)
  have "isUlp v (ulp v) (1074 - i)"
    unfolding isUlp_def grid_down [OF i(1)] u using i by simp
  then show ?thesis by blast
qed

lemma grid_step:
  assumes "j < j'"
  shows "2 * (2 ^ j * minUlp) \<le> 2 ^ j' * minUlp"
proof -
  have "(2::real) ^ Suc j \<le> 2 ^ j'" using assms by (intro power_increasing) simp_all
  then have "2 ^ Suc j * minUlp \<le> 2 ^ j' * minUlp"
    using minUlp_pos by (intro mult_right_mono) simp_all
  then show ?thesis by simp
qed

lemma isUlp_index_mono:
  assumes "isUlp v u j" and "isUlp w u' j'" and "\<bar>v\<bar> \<le> \<bar>w\<bar>"
  shows "j \<le> j'"
proof (rule ccontr)
  assume "\<not> j \<le> j'"
  then have lt: "j' < j" by simp
  then have "0 < j" "j' < 2045" using assms(1) by (simp_all add: isUlp_def)
  then have "2 ^ 52 * u \<le> \<bar>v\<bar>" "\<bar>w\<bar> < 2 ^ 53 * u'"
    using assms by (simp_all add: isUlp_def)
  moreover have "2 * u' \<le> u" using grid_step [OF lt] assms by (simp add: isUlp_def)
  ultimately show False using assms(3) by simp
qed

lemma isUlp_unique:
  assumes "isUlp v u j" and "isUlp v u' j'"
  shows "u = u'"
proof -
  have "j \<le> j'" "j' \<le> j"
    using isUlp_index_mono [OF assms(1,2)] isUlp_index_mono [OF assms(2,1)] by simp_all
  then show ?thesis using assms by (simp add: isUlp_def)
qed

lemma ulp_eqI: "isUlp v u j \<Longrightarrow> ulp v = u"
  using ulp_isUlp [of v] isUlp_unique by blast

lemma isUlp_pos: "isUlp v u j \<Longrightarrow> 0 < u"
  using minUlp_pos by (simp add: isUlp_def)

lemma fl_eq: "isUlp v u j \<Longrightarrow> fl v = u * real_of_int (roundEven (v / u))"
  by (simp add: fl_def Let_def ulp_eqI)


lemma fl_mono:
  assumes "0 \<le> v" and "v \<le> w"
  shows "fl v \<le> fl w"
proof -
  obtain j u where v: "isUlp v u j" "u = ulp v" using ulp_isUlp [of v] by blast
  obtain j' u' where w: "isUlp w u' j'" "u' = ulp w" using ulp_isUlp [of w] by blast
  have u_pos: "0 < u" "0 < u'" using v w isUlp_pos by blast+
  have flv: "fl v = u * real_of_int (roundEven (v / u))" using v(1) by (rule fl_eq)
  have flw: "fl w = u' * real_of_int (roundEven (w / u'))" using w(1) by (rule fl_eq)
  have "j \<le> j'" using isUlp_index_mono [OF v(1) w(1)] assms by simp
  then consider "j = j'" | "j < j'" by linarith
  then show ?thesis
  proof cases
    case 1
    then have same: "u' = u" using v w by (simp add: isUlp_def)
    have "v / u \<le> w / u" using assms u_pos by (simp add: divide_right_mono)
    then have "roundEven (v / u) \<le> roundEven (w / u)" by (rule roundEven_mono)
    then have "u * real_of_int (roundEven (v / u)) \<le> u * real_of_int (roundEven (w / u))"
      using u_pos by (intro mult_left_mono) simp_all
    then show ?thesis by (simp add: flv flw same)
  next
    case 2
    define m where "m = 52 + (j' - j)"
    define b where "b = 2 ^ 52 * u'"
    have grid: "u' = 2 ^ (j' - j) * u"
    proof -
      have "(2::real) ^ j' = 2 ^ (j' - j) * 2 ^ j"
        using 2 by (simp add: power_add [symmetric])
      then show ?thesis using v(1) w(1) by (simp add: isUlp_def)
    qed
    have b_u: "b = real_of_int (2 ^ m) * u"
      by (simp add: b_def m_def grid power_add)
    have b_u': "b = real_of_int (2 ^ 52) * u'"
      by (simp add: b_def)
    have "j < 2045" "0 < j'" using 2 w(1) by (simp_all add: isUlp_def)
    then have "v < 2 ^ 53 * u" "b \<le> w"
      using v(1) w(1) assms by (simp_all add: isUlp_def b_def)
    moreover have "2 * u \<le> u'" using grid_step [OF 2] v(1) w(1) by (simp add: isUlp_def)
    ultimately have "v \<le> b" by (simp add: b_def)
    then have "v / u \<le> real_of_int (2 ^ m)"
      using u_pos by (simp add: b_u pos_divide_le_eq)
    then have "roundEven (v / u) \<le> 2 ^ m" by (rule roundEven_le)
    then have "real_of_int (roundEven (v / u)) \<le> real_of_int (2 ^ m)" by linarith
    then have "u * real_of_int (roundEven (v / u)) \<le> u * real_of_int (2 ^ m)"
      using u_pos by (intro mult_left_mono) simp_all
    then have low: "fl v \<le> b" by (simp add: flv b_u mult.commute)
    have "real_of_int (2 ^ 52) \<le> w / u'"
      using \<open>b \<le> w\<close> u_pos by (simp add: b_u' pos_le_divide_eq)
    then have "2 ^ 52 \<le> roundEven (w / u')" by (rule roundEven_ge)
    then have "real_of_int (2 ^ 52) \<le> real_of_int (roundEven (w / u'))" by linarith
    then have "u' * real_of_int (2 ^ 52) \<le> u' * real_of_int (roundEven (w / u'))"
      using u_pos by (intro mult_left_mono) simp_all
    then have "b \<le> fl w" by (simp add: flw b_u' mult.commute)
    with low show ?thesis by linarith
  qed
qed

lemma fl_idem:
  assumes "0 \<le> v"
  shows "fl (fl v) = fl v"
proof -
  obtain j u where v: "isUlp v u j" using ulp_isUlp [of v] by blast
  have u_pos: "0 < u" using v by (rule isUlp_pos)
  define n where "n = roundEven (v / u)"
  define z where "z = u * real_of_int n"
  have flv: "fl v = z" using fl_eq [OF v] by (simp add: z_def n_def)
  have "real_of_int 0 \<le> v / u" using assms u_pos by simp
  then have n0: "0 \<le> n" unfolding n_def by (rule roundEven_ge)
  then have z_abs: "\<bar>z\<bar> = z" using u_pos by (simp add: z_def)
  have n_low: "2 ^ 52 \<le> n" if "0 < j"
  proof -
    from that v assms have "2 ^ 52 * u \<le> v" by (simp add: isUlp_def)
    then have "real_of_int (2 ^ 52) \<le> v / u" using u_pos by (simp add: pos_le_divide_eq)
    then show ?thesis unfolding n_def by (rule roundEven_ge)
  qed
  have n_high: "n \<le> 2 ^ 53" if "j < 2045"
  proof -
    from that v assms have "v < 2 ^ 53 * u" by (simp add: isUlp_def)
    then have "v / u \<le> real_of_int (2 ^ 53)" using u_pos by (simp add: pos_divide_le_eq)
    then show ?thesis unfolding n_def by (rule roundEven_le)
  qed
  show ?thesis
  proof (cases "j < 2045 \<and> n = 2 ^ 53")
    case True
    then have z: "z = 2 ^ 53 * u" by (simp add: z_def)
    have "isUlp z (2 * u) (Suc j)"
      unfolding isUlp_def z_abs using True v u_pos minUlp_pos by (simp add: z isUlp_def)
    then have "fl z = 2 * u * real_of_int (roundEven (z / (2 * u)))" by (rule fl_eq)
    also have "z / (2 * u) = real_of_int (2 ^ 52)" using u_pos by (simp add: z)
    also have "2 * u * real_of_int (roundEven (real_of_int (2 ^ 52))) = z"
      unfolding roundEven_of_int by (simp add: z)
    finally show ?thesis by (simp add: flv)
  next
    case False
    have "n < 2 ^ 53" if "j < 2045" using n_high [OF that] False that by simp
    then have high: "z < 2 ^ 53 * u" if "j < 2045"
      using that u_pos by (simp add: z_def mult.commute)
    have low: "2 ^ 52 * u \<le> z" if "0 < j"
    proof -
      from n_low [OF that] have "real_of_int (2 ^ 52) \<le> real_of_int n" by linarith
      then have "u * real_of_int (2 ^ 52) \<le> u * real_of_int n"
        using u_pos by (intro mult_left_mono) simp_all
      then show ?thesis by (simp add: z_def mult.commute)
    qed
    have "isUlp z u j"
      unfolding isUlp_def z_abs using v low high by (simp add: isUlp_def)
    then have "fl z = u * real_of_int (roundEven (z / u))" by (rule fl_eq)
    also have "z / u = real_of_int n" using u_pos by (simp add: z_def)
    also have "u * real_of_int (roundEven (real_of_int n)) = z"
      unfolding roundEven_of_int by (simp add: z_def)
    finally show ?thesis by (simp add: flv)
  qed
qed

lemma fl_zero: "fl 0 = 0"
  by (simp add: fl_def Let_def roundEven_def)

lemma fl_nonneg: "0 \<le> v \<Longrightarrow> 0 \<le> fl v"
  using fl_mono [of 0 v] by (simp add: fl_zero)

lemma fl_error:
  assumes "0 \<le> v"
  shows "fl v \<le> roundingBound v"
proof -
  obtain j u where v: "isUlp v u j" using ulp_isUlp [of v] by blast
  have u_pos: "0 < u" using v by (rule isUlp_pos)
  have "real_of_int (roundEven (v / u)) \<le> v / u + 1 / 2"
    using roundEven_near [of "v / u"] by linarith
  then have "u * real_of_int (roundEven (v / u)) \<le> u * (v / u + 1 / 2)"
    using u_pos by (intro mult_left_mono) simp_all
  then have near: "fl v \<le> v + u / 2"
    using u_pos by (simp add: fl_eq [OF v] distrib_left)
  show ?thesis
  proof (cases "0 < j")
    case True
    with v assms have "2 ^ 52 * u \<le> v" by (simp add: isUlp_def)
    then have "u / 2 \<le> v * (1 / 2 ^ 53)" by simp
    with near minUlp_pos show ?thesis by (simp add: roundingBound_def distrib_left)
  next
    case False
    with v have "u = minUlp" by (simp add: isUlp_def)
    with near assms show ?thesis by (simp add: roundingBound_def distrib_left)
  qed
qed

lemma roundingBound_mono: "v \<le> w \<Longrightarrow> roundingBound v \<le> roundingBound w"
  by (simp add: roundingBound_def mult_right_mono)

section \<open>The placement of the logo\<close>

lemma logoSize_cases:
  assumes "scale = fl (cfg_logoSizePct c / 100)"
    and "maxW = fl (cfg_w c * scale)" and "maxH = fl (cfg_h c * scale)"
    and "a = fl (real (img_width im) / real (img_height im))"
  shows "logoSize c im =
           (if fl (maxW / a) \<le> maxH then (maxW, fl (maxW / a)) else (fl (maxH * a), maxH))"
  using assms by (simp add: logoSize_def Let_def)

lemma calculateLogoPosition_size:
  "logo_width (calculateLogoPosition c im) = fst (logoSize c im)"
  "logo_height (calculateLogoPosition c im) = snd (logoSize c im)"
  by (simp_all add: calculateLogoPosition_def split: prod.splits)

lemma calculateLogoPosition_xy:
  "logo_x (calculateLogoPosition c im) = fst (logoXY c (fst (logoSize c im)) (snd (logoSize c im)))"
  "logo_y (calculateLogoPosition c im) = snd (logoXY c (fst (logoSize c im)) (snd (logoSize c im)))"
  by (simp_all add: calculateLogoPosition_def split: prod.splits)

lemma fl_small_power: "fl (1 / 2 ^ 32) = 1 / 2 ^ 32"
  by code_simp

lemma aspectRatio_pos:
  assumes "0 < w" and "0 < h" and "h < 2 ^ 32"
  shows "0 < fl (real w / real h)"
proof -
  have "real h \<le> 2 ^ 32" using assms(3) by (simp add: less_imp_le flip: of_nat_le_iff)
  moreover have "1 \<le> real w" "0 < real h" using assms by simp_all
  ultimately have "1 / 2 ^ 32 \<le> real w / real h"
    by (simp add: frac_le)
  then have "fl (1 / 2 ^ 32) \<le> fl (real w / real h)"
    by (intro fl_mono) simp_all
  then have "1 / 2 ^ 32 \<le> fl (real w / real h)"
    unfolding fl_small_power .
  moreover have "(0::real) < 1 / 2 ^ 32" by simp
  ultimately show ?thesis by linarith
qed

lemma fit_inside:
  assumes "0 < a" and "0 \<le> t" and "0 \<le> s" and "maxW = fl t" and "maxH = fl s"
    and "\<not> fl (maxW / a) \<le> maxH"
  shows "fl (maxH * a) \<le> maxW"
proof -
  have W: "0 \<le> maxW" "fl maxW = maxW" and H: "0 \<le> maxH" "fl maxH = maxH"
    using assms fl_nonneg fl_idem by simp_all
  have "maxH < maxW / a"
  proof (rule ccontr)
    assume "\<not> maxH < maxW / a"
    then have "maxW / a \<le> maxH" by simp
    moreover have "0 \<le> maxW / a" using W assms(1) by simp
    ultimately have "fl (maxW / a) \<le> fl maxH" by (intro fl_mono)
    with assms(6) H show False by simp
  qed
  then have "maxH * a \<le> maxW" using assms(1) by (simp add: pos_less_divide_eq)
  moreover have "0 \<le> maxH * a" using H assms(1) by simp
  ultimately have "fl (maxH * a) \<le> fl maxW" by (intro fl_mono)
  then show ?thesis using W by simp
qed

lemma bound_rounded:
  assumes "0 \<le> d" and "0 \<le> q"
  shows "fl (d * fl q) \<le> roundingBound (d * roundingBound q)"
proof -
  have "fl q \<le> roundingBound q" using assms(2) by (rule fl_error)
  then have "d * fl q \<le> d * roundingBound q" using assms(1) by (rule mult_left_mono)
  then have "roundingBound (d * fl q) \<le> roundingBound (d * roundingBound q)"
    by (rule roundingBound_mono)
  moreover have "fl (d * fl q) \<le> roundingBound (d * fl q)"
    using assms fl_nonneg by (intro fl_error) simp
  ultimately show ?thesis by linarith
qed

lemma fl_exact:
  "fl (1 / 4) = 1 / 4" "fl 300 = 300" "fl (315 / 2) = 315 / 2" "fl 2 = 2" "fl 150 = 150"
  by code_simp+

text \<open>At 25 percent of a 1200 by 630 canvas every operation of the fit is exact.\<close>

lemma logoSize_quarter:
  assumes "cfg_w c = 1200" and "cfg_h c = 630" and "cfg_logoSizePct c = 25"
  shows "logoSize c wideLogo = (300, 150)"
  using assms by (simp add: logoSize_def Let_def wideLogo_def fl_exact)

text \<open>At 7 percent the scale \<open>7 / 100\<close> and the two bounds are rounded.\<close>

lemma sevenPercent_logoSize:
  "logoSize sevenPercent wideLogo = (84 + 1 / 2 ^ 46, 42 + 1 / 2 ^ 47)"
proof -
  have fields: "cfg_logoSizePct sevenPercent = 7" "cfg_w sevenPercent = 1200"
    "cfg_h sevenPercent = 630" "real (img_width wideLogo) = 2000"
    "real (img_height wideLogo) = 1000"
    by (simp_all add: sevenPercent_def defaultConfig_def wideLogo_def)
  have s: "fl (7 / 100) = 1261007895663739 / 2 ^ 54" by code_simp
  have w: "fl (1200 * (1261007895663739 / 2 ^ 54)) = 84 + 1 / 2 ^ 46" by code_simp
  have h: "fl (630 * (1261007895663739 / 2 ^ 54)) = 6206523236469965 / 2 ^ 47" by code_simp
  have a: "fl (2000 / 1000) = 2" by code_simp
  have q: "fl ((84 + 1 / 2 ^ 46) / 2) = 42 + 1 / 2 ^ 47" by code_simp
  show ?thesis unfolding logoSize_def Let_def fields s w h a q by simp
qed

text \<open>
  Claim C4, as stated, fails on the code. The bound that the code computes is
  \<open>w * (logoSizePct / 100)\<close> in double arithmetic, which at 7 percent of a canvas 1200
  wide is \<open>84 + 2 ^ -46\<close>: the width returned for a 2000 by 1000 logo is that number,
  above \<open>w * logoSizePct / 100 = 84\<close>.
\<close>

theorem calculateLogoPosition_fit_counterexample:
  "0 < cfg_w sevenPercent \<and> 0 < cfg_h sevenPercent
   \<and> 0 < cfg_logoSizePct sevenPercent \<and> cfg_logoSizePct sevenPercent \<le> 100
   \<and> 0 < img_width wideLogo \<and> 0 < img_height wideLogo
   \<and> logo_width (calculateLogoPosition sevenPercent wideLogo) = 84 + 1 / 2 ^ 46
   \<and> \<not> logo_width (calculateLogoPosition sevenPercent wideLogo)
          \<le> cfg_w sevenPercent * cfg_logoSizePct sevenPercent / 100"
  by (simp add: calculateLogoPosition_size sevenPercent_logoSize)
     (simp add: sevenPercent_def defaultConfig_def wideLogo_def)

text \<open>
  Claim C4, amended. For a canvas of positive width and height, a logo size above 0 and
  at most 100 percent and an image of positive width and height (a height below
  \<open>2 ^ 32\<close>, as every \<open>img.height\<close> is), \<open>calculateLogoPosition\<close> returns a width of at
  most \<open>maxW\<close> and a height of at most \<open>maxH\<close>, where \<open>maxW = w * (logoSizePct / 100)\<close> and
  \<open>maxH = h * (logoSizePct / 100)\<close> are the bounds as the code computes them, in double
  arithmetic. Each exceeds \<open>w * logoSizePct / 100\<close> (or \<open>h * logoSizePct / 100\<close>) by no
  more than the two roundings. The width is \<open>maxW\<close> and the height \<open>maxW / aspectRatio\<close>
  where \<open>maxW / aspectRatio \<le> maxH\<close>; otherwise the height is \<open>maxH\<close> and the width
  \<open>maxH * aspectRatio\<close>: the aspect ratio of the image is kept up to the rounding of that
  one division or multiplication.
\<close>

theorem calculateLogoPosition_fit:
  assumes "0 < cfg_w c" and "0 < cfg_h c"
    and "0 < cfg_logoSizePct c" and "cfg_logoSizePct c \<le> 100"
    and "0 < img_width im" and "0 < img_height im" and "img_height im < 2 ^ 32"
  shows "let p = calculateLogoPosition c im;
             scale = fl (cfg_logoSizePct c / 100);
             maxW = fl (cfg_w c * scale);
             maxH = fl (cfg_h c * scale);
             aspectRatio = fl (real (img_width im) / real (img_height im))
         in logo_width p \<le> maxW \<and> logo_height p \<le> maxH
          \<and> (if fl (maxW / aspectRatio) \<le> maxH
              then logo_width p = maxW \<and> logo_height p = fl (maxW / aspectRatio)
              else logo_height p = maxH \<and> logo_width p = fl (maxH * aspectRatio))
          \<and> maxW \<le> roundingBound (cfg_w c * roundingBound (cfg_logoSizePct c / 100))
          \<and> maxH \<le> roundingBound (cfg_h c * roundingBound (cfg_logoSizePct c / 100))"
proof -
  define scale maxW maxH a where "scale = fl (cfg_logoSizePct c / 100)"
    and "maxW = fl (cfg_w c * scale)" and "maxH = fl (cfg_h c * scale)"
    and "a = fl (real (img_width im) / real (img_height im))"
  have scale: "0 \<le> scale" using assms(3) unfolding scale_def by (intro fl_nonneg) simp
  have args: "0 \<le> cfg_w c * scale" "0 \<le> cfg_h c * scale"
    using assms(1,2) scale by simp_all
  have a: "0 < a" unfolding a_def using assms(5,6,7) by (rule aspectRatio_pos)
  have size: "logoSize c im =
      (if fl (maxW / a) \<le> maxH then (maxW, fl (maxW / a)) else (fl (maxH * a), maxH))"
    using scale_def maxW_def maxH_def a_def by (rule logoSize_cases)
  have rounded: "maxW \<le> roundingBound (cfg_w c * roundingBound (cfg_logoSizePct c / 100))"
    "maxH \<le> roundingBound (cfg_h c * roundingBound (cfg_logoSizePct c / 100))"
    unfolding maxW_def maxH_def scale_def using assms(1,2,3) by (intro bound_rounded; simp)+
  have "logo_width (calculateLogoPosition c im) \<le> maxW \<and>
        logo_height (calculateLogoPosition c im) \<le> maxH \<and>
        (if fl (maxW / a) \<le> maxH
         then logo_width (calculateLogoPosition c im) = maxW \<and>
              logo_height (calculateLogoPosition c im) = fl (maxW / a)
         else logo_height (calculateLogoPosition c im) = maxH \<and>
              logo_width (calculateLogoPosition c im) = fl (maxH * a))"
  proof (cases "fl (maxW / a) \<le> maxH")
    case True
    then show ?thesis by (simp add: calculateLogoPosition_size size)
  next
    case False
    have "fl (maxH * a) \<le> maxW"
      using a args maxW_def maxH_def False by (rule fit_inside)
    with False show ?thesis by (simp add: calculateLogoPosition_size size)
  qed
  with rounded show ?thesis
    unfolding Let_def scale_def [symmetric] maxW_def [symmetric] maxH_def [symmetric]
      a_def [symmetric]
    by simp
qed

lemma defaultConfig_logoSize: "logoSize defaultConfig wideLogo = (300, 150)"
  by (rule logoSize_quarter) (simp_all add: defaultConfig_def)

lemma defaultConfig_bounds:
  "fl (cfg_w defaultConfig * fl (cfg_logoSizePct defaultConfig / 100)) = 300"
  "fl (cfg_h defaultConfig * fl (cfg_logoSizePct defaultConfig / 100)) = 315 / 2"
  by (simp_all add: defaultConfig_def fl_exact)

text \<open>
  On the default 1200 by 630 canvas at 25 percent, a 2000 by 1000 logo is bounded by 300
  by 157.5 and is placed 300 wide and 150 high: every operation is exact there.
\<close>

theorem calculateLogoPosition_fit_witness:
  "0 < cfg_w defaultConfig \<and> 0 < cfg_h defaultConfig
   \<and> 0 < cfg_logoSizePct defaultConfig \<and> cfg_logoSizePct defaultConfig \<le> 100
   \<and> 0 < img_width wideLogo \<and> 0 < img_height wideLogo \<and> img_height wideLogo < 2 ^ 32
   \<and> logo_width (calculateLogoPosition defaultConfig wideLogo) = 300
   \<and> logo_height (calculateLogoPosition defaultConfig wideLogo) = 150
   \<and> logo_width (calculateLogoPosition defaultConfig wideLogo) \<le> 300
   \<and> logo_height (calculateLogoPosition defaultConfig wideLogo) \<le> 315 / 2"
proof -
  have hyps: "0 < cfg_w defaultConfig" "0 < cfg_h defaultConfig"
    "0 < cfg_logoSizePct defaultConfig" "cfg_logoSizePct defaultConfig \<le> 100"
    "0 < img_width wideLogo" "0 < img_height wideLogo" "img_height wideLogo < 2 ^ 32"
    by (simp_all add: defaultConfig_def wideLogo_def)
  define p where "p = calculateLogoPosition defaultConfig wideLogo"
  have "logo_width p \<le> 300 \<and> logo_height p \<le> 315 / 2"
    using calculateLogoPosition_fit [OF hyps]
    unfolding Let_def defaultConfig_bounds p_def [symmetric] by simp
  moreover have "logo_width p = 300 \<and> logo_height p = 150"
    by (simp add: p_def calculateLogoPosition_size defaultConfig_logoSize)
  ultimately show ?thesis using hyps by (simp add: p_def)
qed



text \<open>
  Claim C9. Where \<open>config.logoPos\<close> is none of the nine anchor names, the placement
  that \<open>calculateLogoPosition\<close> returns has \<open>x\<close> and \<open>y\<close> undefined, and its width and
  height are the fitted size all the same.
\<close>

theorem calculateLogoPosition_unknown_anchor:
  assumes "cfg_logoPos c \<notin> set posNames"
  shows "logo_x (calculateLogoPosition c im) = None
       \<and> logo_y (calculateLogoPosition c im) = None
       \<and> (logo_width (calculateLogoPosition c im), logo_height (calculateLogoPosition c im))
           = logoSize c im"
  using assms
  by (simp add: calculateLogoPosition_xy calculateLogoPosition_size logoXY_def posNames_def)

text \<open>The anchor \<open>middle\<close> is not one of the nine.\<close>

theorem calculateLogoPosition_unknown_anchor_witness:
  "cfg_logoPos (defaultConfig\<lparr>cfg_logoPos := ''middle''\<rparr>) \<notin> set posNames
   \<and> logo_x (calculateLogoPosition (defaultConfig\<lparr>cfg_logoPos := ''middle''\<rparr>) wideLogo) = None
   \<and> logo_y (calculateLogoPosition (defaultConfig\<lparr>cfg_logoPos := ''middle''\<rparr>) wideLogo) = None
   \<and> logo_width (calculateLogoPosition (defaultConfig\<lparr>cfg_logoPos := ''middle''\<rparr>) wideLogo) = 300
   \<and> logo_height (calculateLogoPosition (defaultConfig\<lparr>cfg_logoPos := ''middle''\<rparr>) wideLogo) = 150"
proof -
  define c where "c = defaultConfig\<lparr>cfg_logoPos := ''middle''\<rparr>"
  have anchor: "cfg_logoPos c \<notin> set posNames"
    by (simp add: c_def posNames_def)
  have size: "logoSize c wideLogo = (300, 150)"
    by (rule logoSize_quarter) (simp_all add: c_def defaultConfig_def)
  show ?thesis
    using calculateLogoPosition_unknown_anchor [OF anchor, of wideLogo] anchor
    by (simp add: c_def [symmetric] size)
qed

section \<open>The media types that loadLogo accepts\<close>

lemma matchPrefix_Lit:
  "t \<in> set (matchPrefix (Lit cs) s) \<longleftrightarrow> (\<exists>p. s = p @ t \<and> map canonicalize p = map canonicalize cs)"
proof
  assume "t \<in> set (matchPrefix (Lit cs) s)"
  then have "length cs \<le> length s" "map canonicalize (take (length cs) s) = map canonicalize cs"
    "t = drop (length cs) s"
    by (auto split: if_splits)
  then have "s = take (length cs) s @ t \<and> map canonicalize (take (length cs) s) = map canonicalize cs"
    by simp
  then show "\<exists>p. s = p @ t \<and> map canonicalize p = map canonicalize cs" by blast
next
  assume "\<exists>p. s = p @ t \<and> map canonicalize p = map canonicalize cs"
  then obtain p where p: "s = p @ t" "map canonicalize p = map canonicalize cs" by blast
  from p(2) have "length p = length cs" by (rule map_eq_imp_length_eq)
  with p show "t \<in> set (matchPrefix (Lit cs) s)" by simp
qed

text \<open>
  What a match leaves: \<open>t\<close> is left of \<open>s\<close> exactly when \<open>s\<close> is \<open>p @ t\<close> for a prefix
  \<open>p\<close> whose canonical form is one of the alternatives.
\<close>

lemma matchPrefix_alternatives:
  "t \<in> set (matchPrefix r s) \<longleftrightarrow> (\<exists>p. s = p @ t \<and> map canonicalize p \<in> set (alternatives r))"
proof (induction r arbitrary: s t)
  case (Lit cs)
  show ?case using matchPrefix_Lit [of t cs s] by simp
next
  case (Seq r1 r2)
  have "t \<in> set (matchPrefix (Seq r1 r2) s) \<longleftrightarrow> (\<exists>m \<in> set (matchPrefix r1 s). t \<in> set (matchPrefix r2 m))"
    by simp
  also have "\<dots> \<longleftrightarrow> (\<exists>m. (\<exists>p. s = p @ m \<and> map canonicalize p \<in> set (alternatives r1))
                       \<and> (\<exists>q. m = q @ t \<and> map canonicalize q \<in> set (alternatives r2)))"
    unfolding Bex_def Seq.IH ..
  also have "\<dots> \<longleftrightarrow> (\<exists>p. s = p @ t \<and> map canonicalize p \<in> set (alternatives (Seq r1 r2)))"
  proof
    assume "\<exists>m. (\<exists>p. s = p @ m \<and> map canonicalize p \<in> set (alternatives r1))
                       \<and> (\<exists>q. m = q @ t \<and> map canonicalize q \<in> set (alternatives r2))"
    then obtain p q where a: "s = (p @ q) @ t" "map canonicalize p \<in> set (alternatives r1)"
      "map canonicalize q \<in> set (alternatives r2)" by auto
    from a(2,3) have "map canonicalize (p @ q) \<in> set (alternatives (Seq r1 r2))"
      by force
    with a(1) show "\<exists>p. s = p @ t \<and> map canonicalize p \<in> set (alternatives (Seq r1 r2))" by blast
  next
    assume "\<exists>p. s = p @ t \<and> map canonicalize p \<in> set (alternatives (Seq r1 r2))"
    then obtain pq where pq: "s = pq @ t" "map canonicalize pq \<in> set (alternatives (Seq r1 r2))"
      by blast
    from pq(2) obtain u v where uv: "map canonicalize pq = u @ v"
      "u \<in> set (alternatives r1)" "v \<in> set (alternatives r2)" by auto
    from uv(1) obtain p q where pq': "pq = p @ q" "u = map canonicalize p" "v = map canonicalize q"
      unfolding map_eq_append_conv by blast
    have "s = p @ (q @ t)" using pq(1) pq'(1) by simp
    moreover have "map canonicalize p \<in> set (alternatives r1)" using uv(2) pq'(2) by simp
    moreover have "map canonicalize q \<in> set (alternatives r2)" using uv(3) pq'(3) by simp
    ultimately show "\<exists>m. (\<exists>p. s = p @ m \<and> map canonicalize p \<in> set (alternatives r1))
                       \<and> (\<exists>q. m = q @ t \<and> map canonicalize q \<in> set (alternatives r2))"
      by blast
  qed
  finally show ?case .
next
  case (Alt r1 r2)
  have "t \<in> set (matchPrefix (Alt r1 r2) s) \<longleftrightarrow>
        t \<in> set (matchPrefix r1 s) \<or> t \<in> set (matchPrefix r2 s)" by simp
  also have "\<dots> \<longleftrightarrow> (\<exists>p. s = p @ t \<and> map canonicalize p \<in> set (alternatives r1))
                     \<or> (\<exists>p. s = p @ t \<and> map canonicalize p \<in> set (alternatives r2))"
    unfolding Alt.IH ..
  also have "\<dots> \<longleftrightarrow> (\<exists>p. s = p @ t \<and> map canonicalize p \<in> set (alternatives (Alt r1 r2)))"
    by auto
  finally show ?case .
next
  case (Opt r)
  have "t \<in> set (matchPrefix (Opt r) s) \<longleftrightarrow> t \<in> set (matchPrefix r s) \<or> t = s" by auto
  also have "\<dots> \<longleftrightarrow> (\<exists>p. s = p @ t \<and> map canonicalize p \<in> set (alternatives r)) \<or> t = s"
    unfolding Opt.IH ..
  also have "\<dots> \<longleftrightarrow> (\<exists>p. s = p @ t \<and> map canonicalize p \<in> set (alternatives (Opt r)))"
    by auto
  finally show ?case .
qed

lemma regex_test_alternatives:
  "regex_test r s \<longleftrightarrow> map canonicalize s \<in> set (alternatives r)"
  by (simp add: regex_test_def matchPrefix_alternatives)

lemma alternatives_imageTypeRegex:
  "alternatives imageTypeRegex = map (map canonicalize) acceptedTypes"
  by code_simp

lemma regex_test_imageTypeRegex:
  "regex_test imageTypeRegex s \<longleftrightarrow> map canonicalize s \<in> set (map (map canonicalize) acceptedTypes)"
  by (simp only: regex_test_alternatives alternatives_imageTypeRegex)

lemma loadLogo_rejects:
  "\<not> regex_test imageTypeRegex (file_type f) \<Longrightarrow>
   loadLogo env this f = (Inl UnsupportedFormat, this, [])"
  by (simp add: loadLogo_def)

lemma loadLogo_accepts:
  "regex_test imageTypeRegex (file_type f) \<Longrightarrow> fst (loadLogo env this f) \<noteq> Inl UnsupportedFormat"
  by (simp add: loadLogo_def Let_def split: option.splits)

text \<open>
  Claim C8. \<open>loadLogo\<close> fails with \<open>UnsupportedFormat\<close> exactly when the declared type
  of the file is, letter case apart, none of \<open>image/png\<close>, \<open>image/jpeg\<close> and
  \<open>image/jpg\<close>. When it does, the file has not been read or decoded and the processor
  is as it was.
\<close>

theorem loadLogo_UnsupportedFormat:
  "(fst (loadLogo env this f) = Inl UnsupportedFormat
      \<longleftrightarrow> map canonicalize (file_type f) \<notin> set (map (map canonicalize) acceptedTypes))
   \<and> (fst (loadLogo env this f) = Inl UnsupportedFormat
      \<longrightarrow> loadLogo env this f = (Inl UnsupportedFormat, this, []))"
  using loadLogo_rejects [of f env this] loadLogo_accepts [of f env this]
  unfolding regex_test_imageTypeRegex [symmetric]
  by auto

lemma gifFile_rejected: "fst (loadLogo noBrowser emptyProcessor gifFile) = Inl UnsupportedFormat"
  by code_simp

text \<open>A file declared \<open>image/gif\<close> is rejected with no access made.\<close>

theorem loadLogo_UnsupportedFormat_witness:
  "fst (loadLogo noBrowser emptyProcessor gifFile) = Inl UnsupportedFormat
   \<and> loadLogo noBrowser emptyProcessor gifFile = (Inl UnsupportedFormat, emptyProcessor, [])"
  using loadLogo_UnsupportedFormat [of noBrowser emptyProcessor gifFile] gifFile_rejected
  by blast

section \<open>The bitmap mask\<close>

lemma bitmapLoop_unfold:
  "i < length d \<Longrightarrow> bitmapLoop t d i = bitmapLoop t (bitmapPixel t d i) (i + 4)"
  "\<not> i < length d \<Longrightarrow> bitmapLoop t d i = d"
  by (simp_all add: bitmapLoop.simps [of t d i])

lemma length_bitmapPixel: "length (bitmapPixel t d i) = length d"
  by (simp add: bitmapPixel_def Let_def)

lemma bitmapPixel_other: "j < i \<or> i + 4 \<le> j \<Longrightarrow> bitmapPixel t d i ! j = d ! j"
  by (auto simp: bitmapPixel_def Let_def)

lemma bitmapPixel_here:
  assumes "i + 3 < length d"
  shows "(bitmapPixel t d i ! i, bitmapPixel t d i ! (i + 1), bitmapPixel t d i ! (i + 2),
          bitmapPixel t d i ! (i + 3)) = binarize t (d ! i, d ! (i + 1), d ! (i + 2), d ! (i + 3))"
  using assms by (simp add: bitmapPixel_def Let_def black_def white_def)

lemma length_bitmapLoop: "length (bitmapLoop t d i) = length d"
proof (induction t d i rule: bitmapLoop.induct)
  case (1 t d i)
  show ?case
  proof (cases "i < length d")
    case True
    then show ?thesis using "1.IH" by (simp add: bitmapLoop_unfold length_bitmapPixel)
  next
    case False
    then show ?thesis by (simp add: bitmapLoop_unfold)
  qed
qed

lemma bitmapLoop_before: "j < i \<Longrightarrow> bitmapLoop t d i ! j = d ! j"
proof (induction t d i rule: bitmapLoop.induct)
  case (1 t d i)
  show ?case
  proof (cases "i < length d")
    case True
    then have "bitmapLoop t d i ! j = bitmapLoop t (bitmapPixel t d i) (i + 4) ! j"
      by (simp add: bitmapLoop_unfold)
    also have "\<dots> = bitmapPixel t d i ! j" using "1.IH" [OF True] "1.prems" by simp
    also have "\<dots> = d ! j" using "1.prems" by (simp add: bitmapPixel_other)
    finally show ?thesis .
  next
    case False
    then show ?thesis by (simp add: bitmapLoop_unfold)
  qed
qed

lemma bitmapLoop_pixel:
  "i \<le> 4 * p \<Longrightarrow> 4 dvd i \<Longrightarrow> 4 * p + 3 < length d \<Longrightarrow>
   pixelAt (bitmapLoop t d i) p = binarize t (pixelAt d p)"
proof (induction t d i rule: bitmapLoop.induct)
  case (1 t d i)
  from "1.prems" have lt: "i < length d" by simp
  have unfold: "bitmapLoop t d i = bitmapLoop t (bitmapPixel t d i) (i + 4)"
    using lt by (rule bitmapLoop_unfold)
  show ?case
  proof (cases "i = 4 * p")
    case True
    have "pixelAt (bitmapLoop t d i) p = pixelAt (bitmapPixel t d i) p"
      unfolding unfold pixelAt_def using True by (simp add: bitmapLoop_before)
    also have "\<dots> = binarize t (pixelAt d p)"
      unfolding pixelAt_def using bitmapPixel_here [of i d t] "1.prems" True by simp
    finally show ?thesis .
  next
    case False
    with "1.prems" have next_le: "i + 4 \<le> 4 * p" by (auto elim!: dvdE)
    have "pixelAt (bitmapLoop t d i) p = binarize t (pixelAt (bitmapPixel t d i) p)"
      unfolding unfold using "1.IH" [OF lt next_le] "1.prems" by (simp add: length_bitmapPixel)
    also have "pixelAt (bitmapPixel t d i) p = pixelAt d p"
      unfolding pixelAt_def using next_le by (simp add: bitmapPixel_other)
    finally show ?thesis .
  qed
qed


lemma binarize_black_or_white: "binarize t px = black \<or> binarize t px = white"
  by (cases px) simp

lemma binarize_transparent: "unat a < 64 \<Longrightarrow> binarize t (r, g, b, a) = white"
  by simp

lemma binarize_black: "0 < t \<Longrightarrow> binarize t black = black"
  by (simp add: black_def)

lemma binarize_white: "t < 1 \<Longrightarrow> binarize t white = white"
  by (simp add: white_def)

lemma bitmapLoop_pixels:
  assumes "length d = 4 * n" and "p < n"
  shows "pixelAt (bitmapLoop t d 0) p = binarize t (pixelAt d p)"
  using assms by (intro bitmapLoop_pixel) simp_all

lemma list_eq_pixels:
  assumes "length d' = length d" and "length d = 4 * n"
    and "\<And>p. p < n \<Longrightarrow> pixelAt d' p = pixelAt d p"
  shows "d' = d"
proof (rule nth_equalityI)
  show "length d' = length d" by fact
next
  fix j assume "j < length d'"
  then have j: "j < 4 * n" using assms by simp
  define p k where "p = j div 4" and "k = j mod 4"
  have jp: "j = 4 * p + k" and k: "k < 4" and p: "p < n"
    using j by (simp_all add: p_def k_def)
  from assms(3) [OF p] have eq: "d' ! (4 * p) = d ! (4 * p)" "d' ! (4 * p + 1) = d ! (4 * p + 1)"
    "d' ! (4 * p + 2) = d ! (4 * p + 2)" "d' ! (4 * p + 3) = d ! (4 * p + 3)"
    by (simp_all add: pixelAt_def)
  from k have "k = 0 \<or> k = 1 \<or> k = 2 \<or> k = 3" by linarith
  with eq show "d' ! j = d ! j"
    by (auto simp: jp)
qed

lemma bitmapLoop_isBitmap:
  assumes "wellFormed im"
  shows "isBitmap (im\<lparr>img_data := bitmapLoop t (img_data im) 0\<rparr>)"
  using assms bitmapLoop_pixels [of "img_data im" "img_width im * img_height im" _ t]
    binarize_black_or_white
  by (simp add: isBitmap_def wellFormed_def length_bitmapLoop list_all_iff)

lemma bitmapLoop_transparent:
  assumes "wellFormed im" and "p < img_width im * img_height im"
    and "alphaAt (img_data im) p < 64"
  shows "pixelAt (bitmapLoop t (img_data im) 0) p = white"
proof -
  have "pixelAt (bitmapLoop t (img_data im) 0) p = binarize t (pixelAt (img_data im) p)"
    using assms(1,2) by (intro bitmapLoop_pixels) (simp_all add: wellFormed_def)
  also have "\<dots> = white"
    using assms(3) by (simp add: pixelAt_def alphaAt_def)
  finally show ?thesis .
qed

lemma bitmapLoop_fixes_bitmap:
  assumes "isBitmap im" and "0 < t" and "t < 1"
  shows "bitmapLoop t (img_data im) 0 = img_data im"
proof (rule list_eq_pixels)
  show "length (bitmapLoop t (img_data im) 0) = length (img_data im)"
    by (rule length_bitmapLoop)
  show "length (img_data im) = 4 * (img_width im * img_height im)"
    using assms(1) by (simp add: isBitmap_def wellFormed_def)
next
  fix p assume p: "p < img_width im * img_height im"
  then have bw: "pixelAt (img_data im) p = black \<or> pixelAt (img_data im) p = white"
    using assms(1) by (simp add: isBitmap_def list_all_iff)
  have "pixelAt (bitmapLoop t (img_data im) 0) p = binarize t (pixelAt (img_data im) p)"
    using assms(1) p by (intro bitmapLoop_pixels) (simp_all add: isBitmap_def wellFormed_def)
  also have "\<dots> = pixelAt (img_data im) p"
    using bw binarize_black [OF assms(2)] binarize_white [OF assms(3)] by auto
  finally show "pixelAt (bitmapLoop t (img_data im) 0) p = pixelAt (img_data im) p" .
qed

text \<open>
  Claim C1. For a processed logo whose array holds four bytes a pixel, and for any
  threshold, \<open>convertToBitmap\<close> returns a bitmap of the same size in which every pixel
  is exactly \<open>(0, 0, 0, 255)\<close> or \<open>(255, 255, 255, 255)\<close>, so every alpha is 255; a
  pixel whose alpha in the source is below 64 becomes white.
\<close>

theorem convertToBitmap_black_or_white:
  assumes "processedDataURL this = Some im" and "wellFormed im"
  shows "\<exists>bitmap. fst (convertToBitmap this threshold) = Inr bitmap
           \<and> img_width bitmap = img_width im \<and> img_height bitmap = img_height im
           \<and> isBitmap bitmap
           \<and> (\<forall>p < img_width im * img_height im.
                 alphaAt (img_data im) p < 64 \<longrightarrow> pixelAt (img_data bitmap) p = white)"
  using assms bitmapLoop_isBitmap [OF assms(2), of threshold]
    bitmapLoop_transparent [OF assms(2), of _ threshold]
  by (simp add: convertToBitmap_def Let_def)

lemma redAndClear_facts:
  "processedDataURL (emptyProcessor\<lparr>processedDataURL := Some redAndClear\<rparr>) = Some redAndClear"
  "wellFormed redAndClear"
  "alphaAt (img_data redAndClear) 1 < 64"
  by (simp, code_simp, code_simp)

lemma redAndClear_converted:
  "fst (convertToBitmap (emptyProcessor\<lparr>processedDataURL := Some redAndClear\<rparr>) (1 / 2))
     = Inr blackAndWhite"
  by code_simp

text \<open>
  An opaque red pixel and a nearly transparent one, at the threshold 0.5: the bitmap is
  a black pixel and a white one.
\<close>

theorem convertToBitmap_black_or_white_witness:
  "processedDataURL (emptyProcessor\<lparr>processedDataURL := Some redAndClear\<rparr>) = Some redAndClear
   \<and> wellFormed redAndClear
   \<and> alphaAt (img_data redAndClear) 1 < 64
   \<and> isBitmap blackAndWhite
   \<and> pixelAt (img_data blackAndWhite) 1 = white"
proof -
  from convertToBitmap_black_or_white [OF redAndClear_facts(1,2), of "1 / 2"]
  obtain bitmap where
    "fst (convertToBitmap (emptyProcessor\<lparr>processedDataURL := Some redAndClear\<rparr>) (1 / 2))
       = Inr bitmap"
    and "isBitmap bitmap"
    and "\<forall>p < img_width redAndClear * img_height redAndClear.
           alphaAt (img_data redAndClear) p < 64 \<longrightarrow> pixelAt (img_data bitmap) p = white"
    by blast
  moreover have "(1::nat) < img_width redAndClear * img_height redAndClear"
    by (simp add: redAndClear_def)
  ultimately have "isBitmap blackAndWhite \<and> pixelAt (img_data blackAndWhite) 1 = white"
    using redAndClear_converted redAndClear_facts(3) by auto
  with redAndClear_facts show ?thesis by simp
qed

text \<open>
  Claim C2. For a processed logo that is already a bitmap (every pixel
  \<open>(0, 0, 0, 255)\<close> or \<open>(255, 255, 255, 255)\<close>) and a threshold strictly between 0 and 1,
  \<open>convertToBitmap\<close> returns the very same image.
\<close>

theorem convertToBitmap_idempotent:
  assumes "processedDataURL this = Some bitmap" and "isBitmap bitmap"
    and "0 < threshold" and "threshold < 1"
  shows "fst (convertToBitmap this threshold) = Inr bitmap"
  using assms(1) bitmapLoop_fixes_bitmap [OF assms(2,3,4)]
  by (simp add: convertToBitmap_def Let_def)

lemma blackAndWhite_facts:
  "processedDataURL (emptyProcessor\<lparr>processedDataURL := Some blackAndWhite\<rparr>) = Some blackAndWhite"
  "isBitmap blackAndWhite"
  by (simp, code_simp)

text \<open>The bitmap of the two pixels above, converted again at the threshold 0.7.\<close>

theorem convertToBitmap_idempotent_witness:
  "processedDataURL (emptyProcessor\<lparr>processedDataURL := Some blackAndWhite\<rparr>) = Some blackAndWhite
   \<and> isBitmap blackAndWhite \<and> (0::real) < 7 / 10 \<and> (7::real) / 10 < 1
   \<and> fst (convertToBitmap (emptyProcessor\<lparr>processedDataURL := Some blackAndWhite\<rparr>) (7 / 10))
       = Inr blackAndWhite"
proof -
  have t: "(0::real) < 7 / 10" "(7::real) / 10 < 1" by simp_all
  show ?thesis
    using convertToBitmap_idempotent [OF blackAndWhite_facts t] blackAndWhite_facts t by simp
qed

text \<open>
  The same on the output of \<open>convertToBitmap\<close> itself: a second conversion of what the
  first returned, at any threshold strictly between 0 and 1, returns it unchanged.
\<close>

lemma convertToBitmap_twice:
  assumes "processedDataURL this = Some im" and "wellFormed im"
    and "0 < t2" and "t2 < 1"
    and "fst (convertToBitmap this t1) = Inr bitmap"
  shows "fst (convertToBitmap (this\<lparr>processedDataURL := Some bitmap\<rparr>) t2) = Inr bitmap"
proof -
  from assms(1,5) have "bitmap = im\<lparr>img_data := bitmapLoop t1 (img_data im) 0\<rparr>"
    by (simp add: convertToBitmap_def Let_def)
  then have "isBitmap bitmap"
    using bitmapLoop_isBitmap [OF assms(2), of t1] by simp
  then show ?thesis
    using bitmapLoop_fixes_bitmap [OF _ assms(3,4), of bitmap]
    by (simp add: convertToBitmap_def Let_def)
qed

section \<open>The dominant colour\<close>

lemma nearWhiteAndBlue_counts:
  "countColors (img_data nearWhiteAndBlue) 0 [] = [((250, 250, 250), 9), ((0, 0, 260), 1)]"
  by code_simp

lemma blue_bucket: "roundTo10 0 = 0" "roundTo10 255 = 260" "roundTo10 250 = 250"
  by code_simp+

lemma blue_is_valid: "validateHexColor ''#0000ff'' = Some ''#0000ff''"
  by code_simp

text \<open>
  Claim C7, on the code. For the image of nine sampled near-white pixels and one sampled
  blue pixel, the near-white bucket \<open>(250, 250, 250)\<close> is skipped and the blue bucket
  wins, but the bucket of \<open>(0, 0, 255)\<close> is \<open>(0, 0, 260)\<close> (25.5 rounds up to 26), whose
  last channel prints as the three hexadecimal digits \<open>104\<close>: the result is the
  seven-digit string \<open>#0000104\<close>, which is not blue and which \<open>validateHexColor\<close> of
  the same repository rejects.
\<close>

theorem extractDominantColor_nearWhiteAndBlue:
  "extractDominantColor nearWhiteAndBlue = ''#0000104''
   \<and> extractDominantColor nearWhiteAndBlue \<noteq> ''#0000ff''
   \<and> validateHexColor (extractDominantColor nearWhiteAndBlue) = None"
  by code_simp

section \<open>The composition of the banner\<close>

lemma checkerColumn_ops:
  "\<exists>more. ctx_ops (checkerColumn c x y cv) = ctx_ops cv @ more"
proof (induction c x y cv rule: checkerColumn.induct)
  case (1 c x y cv)
  show ?case
  proof (cases "real y < cfg_h c")
    case True
    define cv' where "cv' = (if evenCell x y then fillRect cv (real x) (real y) 20 20 else cv)"
    have "\<exists>more. ctx_ops (checkerColumn c x (y + 40) cv') = ctx_ops cv' @ more"
      unfolding cv'_def by (rule "1.IH" [OF True])
    moreover have "\<exists>more. ctx_ops cv' = ctx_ops cv @ more"
      by (simp add: cv'_def fillRect_def)
    moreover have "checkerColumn c x y cv = checkerColumn c x (y + 40) cv'"
      using True by (simp add: checkerColumn.simps [of c x y cv] cv'_def)
    ultimately show ?thesis by auto
  next
    case False
    then show ?thesis by (simp add: checkerColumn.simps [of c x y cv])
  qed
qed

lemma checkerRows_ops:
  "\<exists>more. ctx_ops (checkerRows c x cv) = ctx_ops cv @ more"
proof (induction c x cv rule: checkerRows.induct)
  case (1 c x cv)
  show ?case
  proof (cases "real x < cfg_w c")
    case True
    have "\<exists>more. ctx_ops (checkerRows c (x + 40) (checkerColumn c x 0 cv))
                    = ctx_ops (checkerColumn c x 0 cv) @ more"
      by (rule "1.IH" [OF True])
    moreover have "\<exists>more. ctx_ops (checkerColumn c x 0 cv) = ctx_ops cv @ more"
      by (rule checkerColumn_ops)
    moreover have "checkerRows c x cv = checkerRows c (x + 40) (checkerColumn c x 0 cv)"
      using True by (simp add: checkerRows.simps [of c x cv])
    ultimately show ?thesis by auto
  next
    case False
    then show ?thesis by (simp add: checkerRows.simps [of c x cv])
  qed
qed

lemma ctx_ops_restore: "ctx_ops (restore cv) = ctx_ops cv"
  by (simp add: restore_def split: list.splits)

lemma drawTemplateBackground_ops:
  "\<exists>style more. ctx_ops (drawTemplateBackground cv c)
     = ctx_ops cv @ FillRect style (ctx_globalAlpha cv) 0 0 (cfg_w c) (cfg_h c) # more"
proof -
  consider "cfg_template c = ''solid''"
    | "cfg_template c \<noteq> ''solid''" "cfg_template c = ''gradient''"
    | "cfg_template c \<noteq> ''solid''" "cfg_template c \<noteq> ''gradient''"
    by blast
  then show ?thesis
  proof cases
    case 1
    then show ?thesis by (simp add: drawTemplateBackground_def fillRect_def)
  next
    case 2
    then show ?thesis by (simp add: drawTemplateBackground_def fillRect_def Let_def)
  next
    case 3
    define cv3 where
      "cv3 = (save (fillRect (cv\<lparr>ctx_fillStyle := Color (cfg_bg c)\<rparr>) 0 0 (cfg_w c) (cfg_h c)))
               \<lparr>ctx_globalAlpha := 2 / 10, ctx_fillStyle := Color (cfg_grad c)\<rparr>"
    have base: "ctx_ops cv3
                  = ctx_ops cv @ [FillRect (Color (cfg_bg c)) (ctx_globalAlpha cv) 0 0 (cfg_w c) (cfg_h c)]"
      by (simp add: cv3_def save_def fillRect_def)
    obtain more where "ctx_ops (checkerRows c 0 cv3) = ctx_ops cv3 @ more"
      using checkerRows_ops by blast
    moreover have "drawTemplateBackground cv c = restore (checkerRows c 0 cv3)"
      using 3 by (simp add: drawTemplateBackground_def Let_def cv3_def)
    ultimately show ?thesis
      using base by (simp add: ctx_ops_restore)
  qed
qed

text \<open>
  Claim C10. In the mode \<open>upload\<close> with no uploaded background
  (\<open>uploadedBannerDataURL\<close> is \<open>null\<close>), \<open>drawBackground\<close> does not fail: it draws the
  template background of \<open>config.template\<close>, whose first call fills the whole canvas.
\<close>

theorem drawBackground_upload_without_image:
  assumes "cfg_mode c = ''upload''"
  shows "drawBackground loadImage cv c None = Inr (drawTemplateBackground cv c)
       \<and> (\<exists>style more. ctx_ops (drawTemplateBackground cv c)
             = ctx_ops cv @ FillRect style (ctx_globalAlpha cv) 0 0 (cfg_w c) (cfg_h c) # more)"
  using drawTemplateBackground_ops [of cv c] by (simp add: drawBackground_def)

lemma drawBackground_ops:
  assumes "drawBackground loadImage cv c uploaded = Inr cv1"
  shows "\<exists>first more. ctx_ops cv1 = ctx_ops cv @ first # more"
proof (cases "\<exists>u. uploaded = Some u \<and> cfg_mode c = ''upload'' \<and> u \<noteq> []")
  case True
  then obtain u where u: "uploaded = Some u" "cfg_mode c = ''upload''" "u \<noteq> []" by blast
  with assms obtain bannerImg where "loadImage (DataURL u) = Some bannerImg"
    "cv1 = drawImage cv bannerImg (Some 0) (Some 0) (cfg_w c) (cfg_h c)"
    by (auto simp: drawBackground_def split: option.splits)
  then show ?thesis by (simp add: drawImage_def)
next
  case False
  with assms have "cv1 = drawTemplateBackground cv c"
    by (auto simp: drawBackground_def split: option.splits if_splits)
  then show ?thesis using drawTemplateBackground_ops [of cv c] by auto
qed

lemma ctx_ops_drawText: "ctx_ops (drawText cv c) = ctx_ops cv @ [textOp c]"
  by (simp add: drawText_def fillText_def textOp_def Let_def)

lemma drawLogo_Inr:
  assumes "drawLogo loadImage cv2 c vectorSVG = Inr cv"
  shows "\<exists>im. loadImage (SvgBlobURL vectorSVG) = Some im \<and> ctx_ops cv = ctx_ops cv2 @ [logoOp c im]"
  using assms by (auto simp: drawLogo_def drawImage_def logoOp_def Let_def split: option.splits)

lemma generateBanner_Inr:
  assumes "generateBanner loadImage c vectorSVG uploaded = Inr cv"
  shows "\<exists>cv1. drawBackground loadImage (bannerCanvas c) c uploaded = Inr cv1
           \<and> drawLogo loadImage (if cfg_text c \<noteq> [] then drawText cv1 c else cv1) c vectorSVG = Inr cv"
  using assms by (auto simp: generateBanner_def bannerCanvas_def Let_def split: sum.splits)

text \<open>
  Claim C6. The calls on the canvas of a generated banner are, in this order: those of
  the background (at least one), then the one \<open>fillText\<close> of \<open>drawText\<close> when
  \<open>config.text\<close> is not empty and nothing when it is empty, then the one \<open>drawImage\<close>
  of the logo, last. The logo is therefore painted over the text.
\<close>

theorem generateBanner_order:
  assumes "generateBanner loadImage c vectorSVG uploaded = Inr cv"
  shows "\<exists>cv1 im background.
           drawBackground loadImage (bannerCanvas c) c uploaded = Inr cv1
         \<and> loadImage (SvgBlobURL vectorSVG) = Some im
         \<and> ctx_ops cv1 = background \<and> background \<noteq> []
         \<and> ctx_ops cv = background @ (if cfg_text c = [] then [] else [textOp c]) @ [logoOp c im]"
proof -
  from generateBanner_Inr [OF assms] obtain cv1 where
    bg: "drawBackground loadImage (bannerCanvas c) c uploaded = Inr cv1" and
    logo: "drawLogo loadImage (if cfg_text c \<noteq> [] then drawText cv1 c else cv1) c vectorSVG = Inr cv"
    by blast
  from drawLogo_Inr [OF logo] obtain im where
    im: "loadImage (SvgBlobURL vectorSVG) = Some im" and
    ops: "ctx_ops cv = ctx_ops (if cfg_text c \<noteq> [] then drawText cv1 c else cv1) @ [logoOp c im]"
    by blast
  from drawBackground_ops [OF bg] have nonempty: "ctx_ops cv1 \<noteq> []" by auto
  have "ctx_ops cv = ctx_ops cv1 @ (if cfg_text c = [] then [] else [textOp c]) @ [logoOp c im]"
    using ops by (simp add: ctx_ops_drawText)
  with bg im nonempty show ?thesis by blast
qed

text \<open>The checkerboard on an 80 by 40 canvas: the base colour and one square.\<close>

lemma checker_sample:
  "ctx_ops (drawTemplateBackground (bannerCanvas checkerConfig) checkerConfig)
     = [FillRect (Color ''#ffffff'') 1 0 0 80 40, FillRect (Color ''#2563eb'') (2 / 10) 0 0 20 20]"
  by code_simp

text \<open>The default configuration in the mode \<open>upload\<close>, with nothing uploaded: the gradient.\<close>

theorem drawBackground_upload_without_image_witness:
  "cfg_mode uploadConfig = ''upload''
   \<and> drawBackground svgLoader (bannerCanvas uploadConfig) uploadConfig None
       = Inr (drawTemplateBackground (bannerCanvas uploadConfig) uploadConfig)
   \<and> ctx_ops (drawTemplateBackground (bannerCanvas uploadConfig) uploadConfig)
       = [FillRect (LinearGradient 0 0 1200 630 [(0, ''#ffffff''), (1, ''#2563eb'')]) 1 0 0 1200 630]"
proof -
  have mode: "cfg_mode uploadConfig = ''upload''"
    by (simp add: uploadConfig_def defaultConfig_def)
  have ops: "ctx_ops (drawTemplateBackground (bannerCanvas uploadConfig) uploadConfig)
       = [FillRect (LinearGradient 0 0 1200 630 [(0, ''#ffffff''), (1, ''#2563eb'')]) 1 0 0 1200 630]"
    by (simp add: drawTemplateBackground_def uploadConfig_def defaultConfig_def bannerCanvas_def
        createCanvas_def fillRect_def Let_def)
  show ?thesis
    using drawBackground_upload_without_image [OF mode, of svgLoader "bannerCanvas uploadConfig"]
      mode ops
    by simp
qed

lemma hello_generated: "\<exists>cv. generateBanner svgLoader helloConfig ''<svg/>'' None = Inr cv"
  by (simp add: generateBanner_def drawBackground_def drawLogo_def svgLoader_def Let_def)

lemma hello_background:
  "drawBackground svgLoader (bannerCanvas helloConfig) helloConfig None = Inr cv1 \<Longrightarrow>
   ctx_ops cv1 = [FillRect (Color ''#ffffff'') 1 0 0 1200 630]"
  by (auto simp: drawBackground_def drawTemplateBackground_def helloConfig_def defaultConfig_def
      bannerCanvas_def createCanvas_def fillRect_def)

lemma hello_text:
  "cfg_text helloConfig \<noteq> []"
  "textOp helloConfig
     = FillText ''Hello'' (Color ''#ffffff'') (BoldArial 36) ''center'' ''alphabetic'' 600 614"
  by (simp_all add: textOp_def helloConfig_def defaultConfig_def)

lemma hello_logo:
  "logoOp helloConfig wideLogo = DrawImage wideLogo (Some 450) (Some 240) 300 150"
proof -
  have "logoSize helloConfig wideLogo = (300, 150)"
    by (rule logoSize_quarter) (simp_all add: helloConfig_def defaultConfig_def)
  then show ?thesis
    by (simp add: logoOp_def calculateLogoPosition_def logoXY_def Let_def
        helloConfig_def defaultConfig_def)
qed

text \<open>A solid background, the text \<open>Hello\<close> and the logo: three calls, in this order.\<close>

theorem generateBanner_order_witness:
  "\<exists>cv. generateBanner svgLoader helloConfig ''<svg/>'' None = Inr cv
        \<and> ctx_ops cv =
            [FillRect (Color ''#ffffff'') 1 0 0 1200 630,
             FillText ''Hello'' (Color ''#ffffff'') (BoldArial 36) ''center'' ''alphabetic'' 600 614,
             DrawImage wideLogo (Some 450) (Some 240) 300 150]"
proof -
  from hello_generated obtain cv where
    cv: "generateBanner svgLoader helloConfig ''<svg/>'' None = Inr cv" by blast
  from generateBanner_order [OF cv] obtain cv1 im where
    bg: "drawBackground svgLoader (bannerCanvas helloConfig) helloConfig None = Inr cv1" and
    im: "svgLoader (SvgBlobURL ''<svg/>'') = Some im" and
    ops: "ctx_ops cv = ctx_ops cv1 @ (if cfg_text helloConfig = [] then [] else [textOp helloConfig])
                         @ [logoOp helloConfig im]"
    by blast
  from im have "im = wideLogo" by (simp add: svgLoader_def)
  with ops hello_background [OF bg] hello_text hello_logo
  have "ctx_ops cv =
            [FillRect (Color ''#ffffff'') 1 0 0 1200 630,
             FillText ''Hello'' (Color ''#ffffff'') (BoldArial 36) ''center'' ''alphabetic'' 600 614,
             DrawImage wideLogo (Some 450) (Some 240) 300 150]"
    by simp
  with cv show ?thesis by blast
qed

end
